theory Spec2Isabelle
  imports Complex_Main "HOL-Library.Multiset"
begin

section \<open>Arrays and their arithmetic\<close>

text \<open>
  A two-dimensional numpy array is the list of its rows; an array of shape \<open>(N, 1)\<close> or
  \<open>(N,)\<close> is the list of its \<open>N\<close> entries.  An entry is the rational number that the float64
  or int64 value stands for: infinities and NaN are outside the model, and \<open>-0.0\<close> is \<open>0\<close>.
  All arrays are assumed to have the shapes the docstrings give; what numpy does on other
  shapes (broadcasting, \<open>ValueError\<close>) is outside the model, and the theorems state the
  shapes they rely on.
\<close>

type_synonym vec = "rat list"
type_synonym mat = "rat list list"

text \<open>
  The results of numpy's arithmetic depend on the element type: float64 rounds, int64 wraps
  around.  The operations whose result need not be the exact one are the fields of a
  record, and every function of the notebook takes that record as its first argument:
  \<open>np_add\<close>, \<open>np_sub\<close>, \<open>np_mul\<close>, \<open>np_div\<close> and \<open>np_neg\<close> are \<open>+\<close>, \<open>-\<close>, \<open>*\<close>, \<open>/\<close> and unary
  \<open>-\<close> on one entry, \<open>np_dot\<close> is the entry that \<open>@\<close> computes from a row and a column, and
  \<open>np_tol\<close> is the value of the literal \<open>1e-10\<close> of \<open>tol_zero = 1e-10\<close>.  Comparisons
  (\<open><\<close>, \<open>>=\<close>, \<open>==\<close>), \<open>abs\<close> of a float and the tests for zero are exact on the values.
\<close>

record arith =
  np_add :: "rat \<Rightarrow> rat \<Rightarrow> rat"
  np_sub :: "rat \<Rightarrow> rat \<Rightarrow> rat"
  np_mul :: "rat \<Rightarrow> rat \<Rightarrow> rat"
  np_div :: "rat \<Rightarrow> rat \<Rightarrow> rat"
  np_neg :: "rat \<Rightarrow> rat"
  np_dot :: "vec \<Rightarrow> vec \<Rightarrow> rat"
  np_tol :: rat

text \<open>Exact arithmetic: the inner product of two one-dimensional arrays, and the record.\<close>

fun dot :: "vec \<Rightarrow> vec \<Rightarrow> rat" where
  "dot (a # as) (x # xs) = a * x + dot as xs"
| "dot _ _ = 0"

definition exact :: arith where
  "exact = \<lparr>np_add = (+), np_sub = (-), np_mul = (*), np_div = (/), np_neg = uminus,
             np_dot = dot, np_tol = 1 / 10 ^ 10\<rparr>"

text \<open>
  float64 arithmetic with round to nearest, ties to even: \<open>fl x\<close> is the number with a
  significand of 53 bits nearest to \<open>x\<close>.  \<open>fl_norm\<close> scales \<open>|x|\<close> by powers of 2 into
  \<open>[2\<^sup>5\<^sup>2, 2\<^sup>5\<^sup>3)\<close> and returns the scaled value with the unit of its last place.  Overflow
  and subnormal numbers are outside the model.
\<close>

fun fl_norm :: "nat \<Rightarrow> rat \<Rightarrow> rat \<Rightarrow> rat \<times> rat" where
  "fl_norm 0 m u = (m, u)"
| "fl_norm (Suc f) m u =
     (if m < 2 ^ 52 then fl_norm f (m * 2) (u / 2)
      else if 2 ^ 53 \<le> m then fl_norm f (m / 2) (u * 2)
      else (m, u))"

definition round_half_even :: "rat \<Rightarrow> int" where
  "round_half_even m =
     (let n = \<lfloor>m\<rfloor>; d = m - of_int n
      in if d < 1 / 2 then n else if 1 / 2 < d then n + 1 else if even n then n else n + 1)"

definition fl :: "rat \<Rightarrow> rat" where
  "fl x =
     (if x = 0 then 0
      else (case fl_norm 2200 \<bar>x\<bar> 1 of (m, u) \<Rightarrow> sgn x * of_int (round_half_even m) * u))"

text \<open>The inner product in float64, summed from left to right.\<close>

fun fl_dot_from :: "rat \<Rightarrow> vec \<Rightarrow> vec \<Rightarrow> rat" where
  "fl_dot_from acc (a # as) (x # xs) = fl_dot_from (fl (acc + fl (a * x))) as xs"
| "fl_dot_from acc _ _ = acc"

definition float64 :: arith where
  "float64 = \<lparr>np_add = (\<lambda>x y. fl (x + y)), np_sub = (\<lambda>x y. fl (x - y)),
               np_mul = (\<lambda>x y. fl (x * y)), np_div = (\<lambda>x y. fl (x / y)), np_neg = uminus,
               np_dot = fl_dot_from 0, np_tol = fl (1 / 10 ^ 10)\<rparr>"

text \<open>\<open>tol_zero = 1e-10\<close>\<close>

definition tol_zero :: "arith \<Rightarrow> rat" where
  "tol_zero N = np_tol N"

text \<open>\<open>A @ x\<close> for a matrix and a column.\<close>

definition mat_vec :: "arith \<Rightarrow> mat \<Rightarrow> vec \<Rightarrow> vec" where
  "mat_vec N A x = map (\<lambda>r. np_dot N r x) A"

definition vec_add :: "arith \<Rightarrow> vec \<Rightarrow> vec \<Rightarrow> vec" where
  "vec_add N x y = map2 (np_add N) x y"

definition vec_sub :: "arith \<Rightarrow> vec \<Rightarrow> vec \<Rightarrow> vec" where
  "vec_sub N x y = map2 (np_sub N) x y"

definition vec_neg :: "arith \<Rightarrow> vec \<Rightarrow> vec" where
  "vec_neg N x = map (np_neg N) x"

text \<open>\<open>pk * alpha_k\<close>\<close>

definition vec_scale :: "arith \<Rightarrow> vec \<Rightarrow> rat \<Rightarrow> vec" where
  "vec_scale N p a = map (\<lambda>v. np_mul N v a) p"

definition mat_neg :: "arith \<Rightarrow> mat \<Rightarrow> mat" where
  "mat_neg N A = map (map (np_neg N)) A"

text \<open>\<open>np.hstack\<close> of two matrices, and of a matrix with a column.\<close>

definition hstack :: "mat \<Rightarrow> mat \<Rightarrow> mat" where
  "hstack A B = map2 (@) A B"

definition hstack_col :: "mat \<Rightarrow> vec \<Rightarrow> mat" where
  "hstack_col A b = map2 (\<lambda>r v. r @ [v]) A b"

text \<open>\<open>np.vstack\<close>\<close>

definition vstack :: "mat \<Rightarrow> mat \<Rightarrow> mat" where
  "vstack A B = A @ B"

text \<open>
  \<open>A.T\<close> for an array with \<open>n\<close> columns.  A list of rows does not record the number of
  columns of an array with no row, so the number of columns is passed.
\<close>

definition transpose_n :: "nat \<Rightarrow> mat \<Rightarrow> mat" where
  "transpose_n n A = map (\<lambda>j. map (\<lambda>r. r ! j) A) [0..<n]"

text \<open>\<open>np.zeros([m, n])\<close>\<close>

definition zeros :: "nat \<Rightarrow> nat \<Rightarrow> mat" where
  "zeros m n = replicate m (replicate n 0)"

text \<open>Indexing with a boolean mask: \<open>a[mask]\<close>.\<close>

definition mask_select :: "'a list \<Rightarrow> bool list \<Rightarrow> 'a list" where
  "mask_select xs m = map fst (filter snd (zip xs m))"

definition count_nonzero :: "vec \<Rightarrow> nat" where
  "count_nonzero p = length (filter (\<lambda>v. v \<noteq> 0) p)"

text \<open>\<open>np.delete(a, n, axis=0)\<close> for an index in range.\<close>

definition np_delete :: "'a list \<Rightarrow> nat \<Rightarrow> 'a list" where
  "np_delete xs n = take n xs @ drop (Suc n) xs"

datatype error = LinAlgError | TypeError | ValueError | IndexError | UnboundLocalError

text \<open>
  \<open>np.argmin\<close>: the index of the first occurrence of the least entry; it raises
  \<open>ValueError\<close> on an empty array.
\<close>

fun argmin_scan :: "rat \<Rightarrow> nat \<Rightarrow> nat \<Rightarrow> vec \<Rightarrow> nat" where
  "argmin_scan best n i [] = n"
| "argmin_scan best n i (v # vs) =
     (if v < best then argmin_scan v i (Suc i) vs else argmin_scan best n (Suc i) vs)"

definition np_argmin :: "vec \<Rightarrow> error + nat" where
  "np_argmin xs = (case xs of [] \<Rightarrow> Inl ValueError | x # ys \<Rightarrow> Inr (argmin_scan x 0 1 ys))"

section \<open>The working-set initialiser\<close>

text \<open>
  \<^verbatim>\<open>
  def active_set(ai, bi, x0):
      n_active_row = (ai @ x0 - bi == 0).flatten()
      n_inactive_row = ~ n_active_row
      active_set = np.hstack((ai[n_active_row],bi[n_active_row]))
      inactive_set = np.hstack((ai[n_inactive_row],bi[n_inactive_row]))
      return active_set,inactive_set
  \<close>
\<close>

definition active_set :: "arith \<Rightarrow> mat \<Rightarrow> vec \<Rightarrow> vec \<Rightarrow> mat \<times> mat" where
  "active_set N ai bi x0 =
     (let n_active_row = map (\<lambda>v. v = 0) (vec_sub N (mat_vec N ai x0) bi);
          n_inactive_row = map Not n_active_row;
          active = hstack_col (mask_select ai n_active_row) (mask_select bi n_active_row);
          inactive = hstack_col (mask_select ai n_inactive_row) (mask_select bi n_inactive_row)
      in (active, inactive))"

section \<open>The equality-constrained subproblem\<close>

text \<open>\<open>sol[abs(sol) < tol_zero] = 0.0\<close>, entry by entry.\<close>

definition snap :: "arith \<Rightarrow> rat \<Rightarrow> rat" where
  "snap N v = (if \<bar>v\<bar> < tol_zero N then 0 else v)"

definition kkt_lhs :: "arith \<Rightarrow> nat \<Rightarrow> mat \<Rightarrow> mat \<Rightarrow> mat" where
  "kkt_lhs N Nx G A =
     (let Nlambda = length A
      in vstack (hstack G (mat_neg N (transpose_n Nx A))) (hstack A (zeros Nlambda Nlambda)))"

definition kkt_rhs :: "arith \<Rightarrow> mat \<Rightarrow> vec \<Rightarrow> nat \<Rightarrow> vec \<Rightarrow> vec" where
  "kkt_rhs N G c Nlambda xk =
     (let gk = vec_add N (mat_vec N G xk) c in vec_neg N gk @ replicate Nlambda 0)"

text \<open>
  \<open>np.linalg.inv\<close> belongs to numpy, not to the notebook: it is the parameter \<open>np_inv\<close>, which
  returns \<open>None\<close> where numpy raises \<open>LinAlgError\<close>.
  \<^verbatim>\<open>
  def QP_subproblem(G, c, ws, xk):
      Nx = np.shape(xk)[0]
      Nlambda = np.shape(ws)[0]
      A = ws[:,0:-1]
      gk = G @ xk + c
      rhs = np.vstack((-gk,np.zeros([Nlambda,1])))
      lhs = np.vstack((np.hstack((G,-A.T)),np.hstack((A,np.zeros([Nlambda,Nlambda])))))
      sol = np.linalg.inv(lhs) @ rhs
      sol[abs(sol) < tol_zero] = 0.0
      return sol[:Nx,:],sol[Nx:,:]
  \<close>
\<close>

definition QP_subproblem ::
  "arith \<Rightarrow> (mat \<Rightarrow> mat option) \<Rightarrow> mat \<Rightarrow> vec \<Rightarrow> mat \<Rightarrow> vec \<Rightarrow> error + (vec \<times> vec)" where
  "QP_subproblem N np_inv G c ws xk =
     (let Nx = length xk;
          Nlambda = length ws;
          A = map butlast ws;
          rhs = kkt_rhs N G c Nlambda xk;
          lhs = kkt_lhs N Nx G A
      in case np_inv lhs of
           None \<Rightarrow> Inl LinAlgError
         | Some Ki \<Rightarrow>
             (let sol = map (snap N) (mat_vec N Ki rhs) in Inr (take Nx sol, drop Nx sol)))"

section \<open>The active-set controller\<close>

text \<open>The variables of \<open>QP_activeset\<close> that its loop assigns.\<close>

record qp_state =
  xk :: vec
  ws_active :: mat
  ws_inactive :: mat
  ws :: mat

text \<open>
  The \<open>for\<close> loop that yields \<open>alpha_k\<close> and \<open>n_constraint\<close>; \<open>n_constraint\<close> is unbound
  until the loop assigns it.
  \<^verbatim>\<open>
  for i,row in enumerate(ws_inactive):
      b = row[-1]
      a = row[:-1]
      if (a @ pk)[0] < 0:
          v_tmp = (( b - a @ xk )/ (a @ pk))[0]
          if v_tmp < 1:
              n_constraint = i
              alpha_k = v_tmp
  \<close>
\<close>

fun alpha_loop ::
  "arith \<Rightarrow> vec \<Rightarrow> vec \<Rightarrow> nat \<Rightarrow> mat \<Rightarrow> rat \<times> nat option \<Rightarrow> rat \<times> nat option" where
  "alpha_loop N x p i [] acc = acc"
| "alpha_loop N x p i (row # rows) (alpha_k, n_constraint) =
     (let b = last row; a = butlast row
      in if np_dot N a p < 0
         then (let v_tmp = np_div N (np_sub N b (np_dot N a x)) (np_dot N a p)
               in if v_tmp < 1
                  then alpha_loop N x p (Suc i) rows (v_tmp, Some i)
                  else alpha_loop N x p (Suc i) rows (alpha_k, n_constraint))
         else alpha_loop N x p (Suc i) rows (alpha_k, n_constraint))"

datatype step_result = Continue qp_state | Return vec vec | Raise error

text \<open>
  One pass through the body of \<open>while(True)\<close>.
  \<^verbatim>\<open>
  pk,lambda_k = QP_subproblem(G,c,ws,xk)
  if np.shape(lambda_k)[0] > Ne:
      lambda_inequality = lambda_k[Ne:,:]
  else:
      lambda_inequality = np.array([], dtype=np.int).reshape(0,1)
  n_zero = Nx - np.count_nonzero(pk)
  if n_zero == Nx:
      if np.all(lambda_inequality >= 0):
          print("solution find")
          return xk, lambda_k
      else:
          n_min = np.argmin(lambda_inequality)
          row_del = ws_active[n_min,:]
          ws_active = np.delete(ws_active, (n_min), axis=0)
          ws_inactive = np.vstack((ws_inactive, row_del))
          ws = np.vstack((we,ws_active))
  else:
      alpha_k = 1
      for i,row in enumerate(ws_inactive): ...
      if alpha_k == 1:
          xk = xk + pk * alpha_k
      else:
          row_inc = ws_inactive[n_constraint,:]
          ws_active = np.vstack( (ws_active, row_inc))
          ws_inactive = np.delete(ws_inactive, (n_constraint), axis=0)
          ws = np.vstack((we,ws_active))
          xk = xk + pk * alpha_k
  \<close>
\<close>

definition QP_step ::
  "arith \<Rightarrow> (mat \<Rightarrow> mat option) \<Rightarrow> mat \<Rightarrow> vec \<Rightarrow> nat \<Rightarrow> nat \<Rightarrow> mat \<Rightarrow> qp_state \<Rightarrow> step_result" where
  "QP_step N np_inv G c Nx Ne we s =
     (case QP_subproblem N np_inv G c (ws s) (xk s) of
        Inl e \<Rightarrow> Raise e
      | Inr (pk, lambda_k) \<Rightarrow>
          (let lambda_inequality = (if length lambda_k > Ne then drop Ne lambda_k else []);
               n_zero = int Nx - int (count_nonzero pk)
           in if n_zero = int Nx
              then (if list_all (\<lambda>v. v \<ge> 0) lambda_inequality
                    then Return (xk s) lambda_k
                    else (case np_argmin lambda_inequality of
                            Inl e \<Rightarrow> Raise e
                          | Inr n_min \<Rightarrow>
                              if n_min < length (ws_active s)
                              then (let row_del = ws_active s ! n_min;
                                        ws_active' = np_delete (ws_active s) n_min;
                                        ws_inactive' = vstack (ws_inactive s) [row_del]
                                    in Continue (s\<lparr>ws_active := ws_active',
                                                    ws_inactive := ws_inactive',
                                                    ws := vstack we ws_active'\<rparr>))
                              else Raise IndexError))
              else (case alpha_loop N (xk s) pk 0 (ws_inactive s) (1, None) of
                      (alpha_k, n_constraint) \<Rightarrow>
                        if alpha_k = 1
                        then Continue (s\<lparr>xk := vec_add N (xk s) (vec_scale N pk alpha_k)\<rparr>)
                        else (case n_constraint of
                                None \<Rightarrow> Raise UnboundLocalError
                              | Some n \<Rightarrow>
                                  if n < length (ws_inactive s)
                                  then (let row_inc = ws_inactive s ! n;
                                            ws_active' = vstack (ws_active s) [row_inc];
                                            ws_inactive' = np_delete (ws_inactive s) n
                                        in Continue (s\<lparr>xk := vec_add N (xk s) (vec_scale N pk alpha_k),
                                                        ws_active := ws_active',
                                                        ws_inactive := ws_inactive',
                                                        ws := vstack we ws_active'\<rparr>))
                                  else Raise IndexError))))"

datatype outcome = ReturnNone | ReturnPair vec vec | Exception error

text \<open>
  The loop has no bound in the source.  \<open>QP_loop n\<close> runs at most \<open>n\<close> passes; \<open>None\<close> says
  that the loop is still running after them.
\<close>

fun QP_loop ::
  "arith \<Rightarrow> (mat \<Rightarrow> mat option) \<Rightarrow> mat \<Rightarrow> vec \<Rightarrow> nat \<Rightarrow> nat \<Rightarrow> mat \<Rightarrow> nat \<Rightarrow> qp_state \<Rightarrow> outcome option" where
  "QP_loop N np_inv G c Nx Ne we 0 s = None"
| "QP_loop N np_inv G c Nx Ne we (Suc n) s =
     (case QP_step N np_inv G c Nx Ne we s of
        Continue s' \<Rightarrow> QP_loop N np_inv G c Nx Ne we n s'
      | Return x l \<Rightarrow> Some (ReturnPair x l)
      | Raise e \<Rightarrow> Some (Exception e))"

text \<open>
  The feasibility test at the head of \<open>QP_activeset\<close>; \<open>Some out\<close> when the function leaves
  there.  Subtracting \<open>None\<close> from an array raises \<open>TypeError\<close>.
  \<^verbatim>\<open>
  if ae is not None:
      if not np.all(ae @ x0 - be == 0):
          print("Error")
          return None
  if ai is not None:
      if not np.all(ai @ x0 - bi >= 0):
          print("Error")
          return None
  \<close>
\<close>

definition check_equalities :: "arith \<Rightarrow> mat option \<Rightarrow> vec option \<Rightarrow> vec \<Rightarrow> outcome option" where
  "check_equalities N ae be x0 =
     (case ae of
        None \<Rightarrow> None
      | Some A \<Rightarrow>
          (case be of
             None \<Rightarrow> Some (Exception TypeError)
           | Some b \<Rightarrow>
               if \<not> list_all (\<lambda>v. v = 0) (vec_sub N (mat_vec N A x0) b) then Some ReturnNone
               else None))"

definition check_inequalities :: "arith \<Rightarrow> mat option \<Rightarrow> vec option \<Rightarrow> vec \<Rightarrow> outcome option" where
  "check_inequalities N ai bi x0 =
     (case ai of
        None \<Rightarrow> None
      | Some A \<Rightarrow>
          (case bi of
             None \<Rightarrow> Some (Exception TypeError)
           | Some b \<Rightarrow>
               if \<not> list_all (\<lambda>v. v \<ge> 0) (vec_sub N (mat_vec N A x0) b) then Some ReturnNone
               else None))"

text \<open>
  The initialisation: \<open>Ne\<close>, \<open>we\<close> and the variables of the loop.  It is reached only past
  the feasibility test, which has raised \<open>TypeError\<close> where a matrix comes without its
  right-hand side; the empty list stands for the missing right-hand side there.
  \<^verbatim>\<open>
  xk = x0
  if ae is not None: Ne = np.shape(ae)[0]
  else: Ne = 0
  if ai is not None:
      Ni = np.shape(ai)[0]
      ws_active, ws_inactive = active_set(ai, bi, xk)
  else:
      Ni = 0
      ws_active = np.array([], dtype=np.int).reshape(0,Nx+1)
      ws_inactive = np.array([], dtype=np.int).reshape(0,Nx+1)
  if ae is None: we = np.array([], dtype=np.int).reshape(0,Nx+1)
  else: we = np.hstack((ae,be))
  ws = np.vstack((we,ws_active))
  \<close>
\<close>

definition QP_Ne :: "mat option \<Rightarrow> nat" where
  "QP_Ne ae = (case ae of Some A \<Rightarrow> length A | None \<Rightarrow> 0)"

definition QP_we :: "mat option \<Rightarrow> vec option \<Rightarrow> mat" where
  "QP_we ae be = (case ae of None \<Rightarrow> [] | Some A \<Rightarrow> hstack_col A (case be of Some b \<Rightarrow> b | None \<Rightarrow> []))"

definition QP_init :: "arith \<Rightarrow> mat option \<Rightarrow> vec option \<Rightarrow> mat option \<Rightarrow> vec option \<Rightarrow> vec \<Rightarrow> qp_state" where
  "QP_init N ae be ai bi x0 =
     (let (act, inact) = (case ai of
                            Some A \<Rightarrow> active_set N A (case bi of Some b \<Rightarrow> b | None \<Rightarrow> []) x0
                          | None \<Rightarrow> ([], []))
      in \<lparr>xk = x0, ws_active = act, ws_inactive = inact, ws = vstack (QP_we ae be) act\<rparr>)"

text \<open>
  \<open>QP_activeset\<close> with the lines it prints.  \<open>None\<close>: the loop is still running after \<open>fuel\<close>
  passes.
  \<^verbatim>\<open>
  def QP_activeset(G, c, ae = None, be = None, ai= None, bi= None, x0 = None):
      Nx = np.shape(G)[0]
      if x0 is None:
          x0 = np.zeros(Nx).reshape(-1,1)
      ...
  \<close>
\<close>

definition default_x0 :: "mat \<Rightarrow> vec option \<Rightarrow> vec" where
  "default_x0 G x0 = (case x0 of None \<Rightarrow> replicate (length G) 0 | Some x \<Rightarrow> x)"

definition QP_activeset ::
  "arith \<Rightarrow> (mat \<Rightarrow> mat option) \<Rightarrow> nat \<Rightarrow> mat \<Rightarrow> vec \<Rightarrow> mat option \<Rightarrow> vec option \<Rightarrow> mat option \<Rightarrow> vec option
     \<Rightarrow> vec option \<Rightarrow> (string list \<times> outcome) option" where
  "QP_activeset N np_inv fuel G c ae be ai bi x0opt =
     (let Nx = length G;
          x0 = default_x0 G x0opt
      in case check_equalities N ae be x0 of
           Some ReturnNone \<Rightarrow> Some ([''Error''], ReturnNone)
         | Some out \<Rightarrow> Some ([], out)
         | None \<Rightarrow>
             (case check_inequalities N ai bi x0 of
                Some ReturnNone \<Rightarrow> Some ([''Error''], ReturnNone)
              | Some out \<Rightarrow> Some ([], out)
              | None \<Rightarrow>
                  (case QP_loop N np_inv G c Nx (QP_Ne ae) (QP_we ae be) fuel (QP_init N ae be ai bi x0) of
                     None \<Rightarrow> None
                   | Some (ReturnPair x l) \<Rightarrow> Some ([''solution find''], ReturnPair x l)
                   | Some out \<Rightarrow> Some ([], out))))"

text \<open>The state at the head of pass \<open>k + 1\<close>, when the loop gets there.\<close>

fun QP_iterate ::
  "arith \<Rightarrow> (mat \<Rightarrow> mat option) \<Rightarrow> mat \<Rightarrow> vec \<Rightarrow> nat \<Rightarrow> nat \<Rightarrow> mat \<Rightarrow> nat \<Rightarrow> qp_state \<Rightarrow> qp_state option" where
  "QP_iterate N np_inv G c Nx Ne we 0 s = Some s"
| "QP_iterate N np_inv G c Nx Ne we (Suc k) s =
     (case QP_step N np_inv G c Nx Ne we s of
        Continue s' \<Rightarrow> QP_iterate N np_inv G c Nx Ne we k s'
      | _ \<Rightarrow> None)"

section \<open>Inverses\<close>

text \<open>
  The exact matrix product where the right factor has \<open>n\<close> columns, and the identity
  matrix: they say what an inverse is.
\<close>

definition mat_mul :: "nat \<Rightarrow> mat \<Rightarrow> mat \<Rightarrow> mat" where
  "mat_mul n A B = map (\<lambda>r. map (\<lambda>j. dot r (map (\<lambda>row. row ! j) B)) [0..<n]) A"

definition identity :: "nat \<Rightarrow> mat" where
  "identity n = map (\<lambda>i. map (\<lambda>j. if i = j then 1 else 0) [0..<n]) [0..<n]"

definition is_mat :: "nat \<Rightarrow> nat \<Rightarrow> mat \<Rightarrow> bool" where
  "is_mat m n A \<longleftrightarrow> length A = m \<and> list_all (\<lambda>r. length r = n) A"

text \<open>
  Gauss-Jordan elimination on \<open>[K | I]\<close>: an inverse to run the model with.  It returns
  \<open>None\<close> when a column has no pivot.  In exact arithmetic it is \<open>exact_inv\<close>.  In float64
  arithmetic it divides 1 by the entry of a \<open>1 \<times> 1\<close> matrix, as LAPACK does, and it is used
  on such matrices only.
\<close>

fun gauss_jordan :: "arith \<Rightarrow> nat list \<Rightarrow> mat \<Rightarrow> mat option" where
  "gauss_jordan N [] M = Some M"
| "gauss_jordan N (j # js) M =
     (case find (\<lambda>i. M ! i ! j \<noteq> 0) [j..<length M] of
        None \<Rightarrow> None
      | Some r \<Rightarrow>
          (let M1 = (M[j := M ! r])[r := M ! j];
               pr = map (\<lambda>v. np_div N v (M1 ! j ! j)) (M1 ! j);
               M2 = map (\<lambda>(i, row). if i = j then pr
                                     else map2 (\<lambda>u v. np_sub N u (np_mul N (row ! j) v)) row pr)
                        (zip [0..<length M1] M1)
           in gauss_jordan N js M2))"

definition gauss_inv :: "arith \<Rightarrow> mat \<Rightarrow> mat option" where
  "gauss_inv N K =
     (let n = length K
      in map_option (map (drop n)) (gauss_jordan N [0..<n] (hstack K (identity n))))"

definition exact_inv :: "mat \<Rightarrow> mat option" where
  "exact_inv = gauss_inv exact"

section \<open>Predicates of the statements\<close>

text \<open>\<open>n\<close> is the first index at which \<open>xs\<close> takes its least value.\<close>

definition first_min :: "vec \<Rightarrow> nat \<Rightarrow> bool" where
  "first_min xs n \<longleftrightarrow>
     n < length xs \<and> list_all (\<lambda>v. xs ! n \<le> v) xs \<and> list_all (\<lambda>v. xs ! n < v) (take n xs)"

text \<open>\<open>x\<close> satisfies every row \<open>[a | b]\<close> of \<open>W\<close> with equality: \<open>a\<cdot>x = b\<close>.\<close>

definition rows_satisfied :: "mat \<Rightarrow> vec \<Rightarrow> bool" where
  "rows_satisfied W x \<longleftrightarrow> list_all (\<lambda>row. dot (butlast row) x = last row) W"

text \<open>The rows \<open>[a | b]\<close> of the inequalities handed to \<open>QP_activeset\<close>.\<close>

definition ineq_rows :: "mat option \<Rightarrow> vec option \<Rightarrow> mat" where
  "ineq_rows ai bi =
     (case ai of None \<Rightarrow> [] | Some A \<Rightarrow> hstack_col A (case bi of Some b \<Rightarrow> b | None \<Rightarrow> []))"

text \<open>
  The arguments have the shapes of the docstring: \<open>G\<close> is \<open>Nx \<times> Nx\<close>, \<open>c\<close> and \<open>x0\<close> have \<open>Nx\<close>
  entries, a constraint matrix comes with its right-hand side, has \<open>Nx\<close> columns and as many
  rows as the right-hand side has entries.
\<close>

definition wf_constraints :: "nat \<Rightarrow> mat option \<Rightarrow> vec option \<Rightarrow> bool" where
  "wf_constraints Nx a b =
     (case a of
        None \<Rightarrow> True
      | Some A \<Rightarrow> (case b of None \<Rightarrow> False | Some v \<Rightarrow> is_mat (length v) Nx A))"

definition wf_problem ::
  "nat \<Rightarrow> mat \<Rightarrow> vec \<Rightarrow> mat option \<Rightarrow> vec option \<Rightarrow> mat option \<Rightarrow> vec option \<Rightarrow> vec \<Rightarrow> bool" where
  "wf_problem Nx G c ae be ai bi x0 \<longleftrightarrow>
     is_mat Nx Nx G \<and> length c = Nx \<and> length x0 = Nx
     \<and> wf_constraints Nx ae be \<and> wf_constraints Nx ai bi"

text \<open>
  In exact arithmetic, the solve at the head of a pass is exact and idle in its snap: where
  \<open>np.linalg.inv\<close> returns a matrix, it has the shape of the KKT matrix \<open>K\<close> and is a right
  inverse of \<open>K\<close>, and replacing the entries below \<open>tol_zero\<close> by 0 changes no entry of the
  step.
\<close>

definition exact_solve :: "(mat \<Rightarrow> mat option) \<Rightarrow> mat \<Rightarrow> vec \<Rightarrow> qp_state \<Rightarrow> bool" where
  "exact_solve np_inv G c s =
     (let Nx = length (xk s);
          M = length (ws s);
          K = kkt_lhs exact Nx G (map butlast (ws s))
      in case np_inv K of
           None \<Rightarrow> True
         | Some Ki \<Rightarrow>
             is_mat (Nx + M) (Nx + M) Ki \<and> mat_mul (Nx + M) K Ki = identity (Nx + M)
             \<and> (let sol = mat_vec exact Ki (kkt_rhs exact G c M (xk s))
                in take Nx (map (snap exact) sol) = take Nx sol))"

text \<open>The solves of the first \<open>k\<close> passes from \<open>s\<close> are exact and idle in their snap.\<close>

fun exact_run ::
  "(mat \<Rightarrow> mat option) \<Rightarrow> mat \<Rightarrow> vec \<Rightarrow> nat \<Rightarrow> nat \<Rightarrow> mat \<Rightarrow> nat \<Rightarrow> qp_state \<Rightarrow> bool" where
  "exact_run np_inv G c Nx Ne we 0 s = True"
| "exact_run np_inv G c Nx Ne we (Suc k) s =
     (exact_solve np_inv G c s \<and>
      (case QP_step exact np_inv G c Nx Ne we s of
         Continue s' \<Rightarrow> exact_run np_inv G c Nx Ne we k s'
       | _ \<Rightarrow> True))"

section \<open>Evaluating the two arithmetics\<close>

lemma exact_simps [simp]:
  "np_add exact = (+)" "np_sub exact = (-)" "np_mul exact = (*)" "np_div exact = (/)"
  "np_neg exact = uminus" "np_dot exact = dot" "np_tol exact = 1 / 10 ^ 10"
  by (simp_all add: exact_def)

lemma fl_norm_up:
  "m < 2 ^ 52 \<Longrightarrow> fl_norm (numeral n) m u = fl_norm (pred_numeral n) (m * 2) (u / 2)"
  by (simp add: numeral_eq_Suc)

lemma fl_norm_down:
  "2 ^ 53 \<le> m \<Longrightarrow> fl_norm (numeral n) m u = fl_norm (pred_numeral n) (m / 2) (u * 2)"
  by (simp add: numeral_eq_Suc)

lemma fl_norm_stop: "2 ^ 52 \<le> m \<Longrightarrow> m < 2 ^ 53 \<Longrightarrow> fl_norm (numeral n) m u = (m, u)"
  by (simp add: numeral_eq_Suc)

lemma fl_zero [simp]: "fl 0 = 0"
  by (simp add: fl_def)

lemma fl_pos:
  "0 < x \<Longrightarrow> fl x = (case fl_norm 2200 x 1 of (m, u) \<Rightarrow> of_int (round_half_even m) * u)"
  by (simp add: fl_def)

lemma fl_neg:
  "x < 0 \<Longrightarrow>
     fl x = - (case fl_norm 2200 (- x) 1 of (m, u) \<Rightarrow> of_int (round_half_even m) * u)"
  by (simp add: fl_def split: prod.splits)

lemma floor_rat_numeral_div:
  "\<lfloor>(numeral a :: rat) / numeral b\<rfloor> = numeral a div numeral b"
  using floor_divide_of_int_eq [of "numeral a" "numeral b", where ?'a = rat] by simp

lemmas fl_eval =
  floor_rat_numeral_div fl_norm_up fl_norm_down fl_norm_stop fl_pos fl_neg
  round_half_even_def Let_def

lemma float64_simps:
  "np_add float64 x y = fl (x + y)" "np_sub float64 x y = fl (x - y)"
  "np_mul float64 x y = fl (x * y)" "np_div float64 x y = fl (x / y)"
  "np_neg float64 = uminus" "np_dot float64 = fl_dot_from 0" "np_tol float64 = fl (1 / 10 ^ 10)"
  by (simp_all add: float64_def)

text \<open>
  Some float64 values: \<open>1/49\<close> and \<open>49 * (1/49)\<close>, which is below 1; \<open>10\<^sup>1\<^sup>6 + 1\<close>, which is
  \<open>10\<^sup>1\<^sup>6\<close>; and \<open>1e-10\<close>.
\<close>

lemma fl_one_49th: "fl (1 / 49) = 5882252574524729 / 288230376151711744"
  by (simp add: fl_eval)

lemma fl_49_times_49th:
  "fl (49 * (5882252574524729 / 288230376151711744)) = 9007199254740991 / 9007199254740992"
  by (simp add: fl_eval)

lemma fl_1e16_plus_1: "fl (10 ^ 16 + 1) = 10 ^ 16"
  by (simp add: fl_eval)

lemma fl_1em10: "fl (1 / 10 ^ 10) = 7737125245533627 / 77371252455336267181195264"
  by (simp add: fl_eval)

section \<open>The feasibility test\<close>

lemma list_all_vec_sub:
  "length b = length A \<Longrightarrow>
     list_all P (vec_sub N (mat_vec N A x) b)
       \<longleftrightarrow> (\<forall>i<length A. P (np_sub N (np_dot N (A ! i) x) (b ! i)))"
  by (simp add: list_all_length vec_sub_def mat_vec_def)

lemma check_equalities_violated:
  assumes "length b = length A" and "i < length A"
    and "np_sub N (np_dot N (A ! i) x) (b ! i) \<noteq> 0"
  shows "check_equalities N (Some A) (Some b) x = Some ReturnNone"
  using assms by (auto simp: check_equalities_def list_all_vec_sub)

lemma check_equalities_cases:
  "check_equalities N (Some A) (Some b) x = Some ReturnNone
     \<or> check_equalities N (Some A) (Some b) x = None"
  by (simp add: check_equalities_def)

lemma check_inequalities_violated:
  assumes "length b = length A" and "i < length A"
    and "np_sub N (np_dot N (A ! i) x) (b ! i) < 0"
  shows "check_inequalities N (Some A) (Some b) x = Some ReturnNone"
  using assms by (auto simp: check_inequalities_def list_all_vec_sub not_le)

text \<open>
  C4, as the code has it.  Let \<open>x\<close> be the starting point, the origin when \<open>x0\<close> is omitted,
  and take any arithmetic of the arrays.  If some entry of the residual \<open>ae @ x - be\<close> of the
  supplied equalities, as numpy computes it, is not zero, or the equalities are absent or
  supplied and some entry of the computed residual \<open>ai @ x - bi\<close> of the supplied
  inequalities is negative, then \<open>QP_activeset\<close> prints \<open>Error\<close> and returns \<open>None\<close>, whatever
  the number of passes allowed to the loop, zero included: no pass is made.
\<close>

theorem infeasible_start_returns_None:
  assumes "x = default_x0 G x0"
    and "(\<exists>A b. ae = Some A \<and> be = Some b \<and> length b = length A \<and>
                (\<exists>i<length A. np_sub N (np_dot N (A ! i) x) (b ! i) \<noteq> 0))
         \<or> ((ae = None \<or> (\<exists>A b. ae = Some A \<and> be = Some b \<and> length b = length A)) \<and>
            (\<exists>A b. ai = Some A \<and> bi = Some b \<and> length b = length A \<and>
                (\<exists>i<length A. np_sub N (np_dot N (A ! i) x) (b ! i) < 0)))"
  shows "QP_activeset N np_inv fuel G c ae be ai bi x0 = Some ([''Error''], ReturnNone)"
  using assms(2)
proof (elim disjE exE conjE)
  fix A b i
  assume "ae = Some A" "be = Some b" "length b = length A" "i < length A"
    "np_sub N (np_dot N (A ! i) x) (b ! i) \<noteq> 0"
  then show ?thesis
    using check_equalities_violated [of b A i N x] assms(1)
    by (simp add: QP_activeset_def)
next
  fix A b i
  assume "ae = None" "ai = Some A" "bi = Some b" "length b = length A" "i < length A"
    "np_sub N (np_dot N (A ! i) x) (b ! i) < 0"
  then show ?thesis
    using check_inequalities_violated [of b A i N x] assms(1)
    by (simp add: QP_activeset_def check_equalities_def)
next
  fix A b i A' b'
  assume "ae = Some A'" "be = Some b'" "ai = Some A" "bi = Some b" "length b = length A"
    "i < length A" "np_sub N (np_dot N (A ! i) x) (b ! i) < 0"
  then show ?thesis
    using check_inequalities_violated [of b A i N x] check_equalities_cases [of N A' b' x]
      assms(1)
    by (auto simp: QP_activeset_def)
qed

theorem infeasible_start_returns_None_witness:
  "QP_activeset float64 (gauss_inv float64) 0 [[2, 0], [0, 2]] [0, 0] (Some [[1, -1]]) (Some [0])
       (Some [[1, 0]]) (Some [1]) (Some [3, 2])
     = Some ([''Error''], ReturnNone)
   \<and> QP_activeset exact exact_inv 0 [[2, 0], [0, 2]] [0, 0] None None (Some [[1, 0]]) (Some [1])
       None
     = Some ([''Error''], ReturnNone)"
proof -
  have a: "QP_activeset float64 (gauss_inv float64) 0 [[2, 0], [0, 2]] [0, 0] (Some [[1, -1]])
       (Some [0]) (Some [[1, 0]]) (Some [1]) (Some [3, 2])
     = Some ([''Error''], ReturnNone)"
    by (rule infeasible_start_returns_None [where x = "[3, 2]"])
      (simp_all add: default_x0_def float64_simps fl_eval)
  have b: "QP_activeset exact exact_inv 0 [[2, 0], [0, 2]] [0, 0] None None (Some [[1, 0]])
       (Some [1]) None
     = Some ([''Error''], ReturnNone)"
    by (rule infeasible_start_returns_None [where x = "[0, 0]"])
      (simp_all add: default_x0_def)
  show ?thesis using a b by simp
qed

text \<open>
  C4 states this for every starting point that violates a row.  In float64 take the
  equality \<open>x\<^sub>1 + x\<^sub>2 = 10\<^sup>1\<^sup>6\<close> and the starting point \<open>(10\<^sup>1\<^sup>6, 1)\<close>, which violates it by 1.
  The sum \<open>10\<^sup>1\<^sup>6 + 1\<close> is rounded to \<open>10\<^sup>1\<^sup>6\<close>, the computed residual is 0, the test passes, no
  error is printed and the loop is entered.
\<close>

theorem rounded_residual_passes_the_test:
  "dot [1, 1] [10 ^ 16, 1] - 10 ^ 16 = 1
   \<and> vec_sub float64 (mat_vec float64 [[1, 1]] [10 ^ 16, 1]) [10 ^ 16] = [0]
   \<and> check_equalities float64 (Some [[1, 1]]) (Some [10 ^ 16]) [10 ^ 16, 1] = None
   \<and> QP_activeset float64 (gauss_inv float64) 0 [[2, 0], [0, 2]] [0, 0] (Some [[1, 1]])
        (Some [10 ^ 16]) None None (Some [10 ^ 16, 1]) = None"
  by (simp add: QP_activeset_def default_x0_def check_equalities_def check_inequalities_def
      vec_sub_def mat_vec_def float64_simps fl_eval)

section \<open>The initial partition\<close>

lemma mask_select_Cons [simp]:
  "mask_select (x # xs) (m # ms) = (if m then x # mask_select xs ms else mask_select xs ms)"
  by (simp add: mask_select_def)

lemma mask_select_Nil [simp]: "mask_select [] ms = []" "mask_select xs [] = []"
  by (simp_all add: mask_select_def)

lemma hstack_col_mask:
  "length b = length A \<Longrightarrow>
   hstack_col (mask_select A (map P (zip A b))) (mask_select b (map P (zip A b)))
     = map (\<lambda>(r, v). r @ [v]) (filter P (zip A b))"
  by (induction A b rule: list_induct2') (auto simp: hstack_col_def)

lemma zip_nth_upt: "length b = length A \<Longrightarrow> zip A b = map (\<lambda>i. (A ! i, b ! i)) [0..<length A]"
  by (rule nth_equalityI) simp_all

lemma residual_mask:
  "length b = length A \<Longrightarrow>
     map Q (vec_sub N (mat_vec N A x) b)
       = map (\<lambda>(r, v). Q (np_sub N (np_dot N r x) v)) (zip A b)"
  by (rule nth_equalityI) (simp_all add: vec_sub_def mat_vec_def)

lemma active_set_filter:
  assumes "length bi = length ai"
  shows "active_set N ai bi x0 =
     (map (\<lambda>(r, v). r @ [v]) (filter (\<lambda>(r, v). np_sub N (np_dot N r x0) v = 0) (zip ai bi)),
      map (\<lambda>(r, v). r @ [v]) (filter (\<lambda>(r, v). np_sub N (np_dot N r x0) v \<noteq> 0) (zip ai bi)))"
proof -
  have m1: "map (\<lambda>v. v = 0) (vec_sub N (mat_vec N ai x0) bi)
      = map (\<lambda>(r, v). np_sub N (np_dot N r x0) v = 0) (zip ai bi)"
    using assms by (rule residual_mask)
  have m2: "map Not (map (\<lambda>(r, v). np_sub N (np_dot N r x0) v = 0) (zip ai bi))
      = map (\<lambda>(r, v). np_sub N (np_dot N r x0) v \<noteq> 0) (zip ai bi)"
    by auto
  show ?thesis
    unfolding active_set_def Let_def m1 m2
    using assms by (simp add: hstack_col_mask)
qed

text \<open>
  C7, as the code has it.  For \<open>Ni\<close> rows \<open>ai\<close> with right-hand sides \<open>bi\<close> and any arithmetic
  of the arrays, the first matrix \<open>active_set\<close> returns holds, in order, the rows
  \<open>[ai\<^sub>i | bi\<^sub>i]\<close> of the indices \<open>i\<close> at which the residual \<open>(ai @ x0 - bi)\<^sub>i\<close>, as numpy
  computes it, is exactly zero, and the second those of the other indices; when the rows
  of \<open>ai\<close> have \<open>Nx\<close> entries, every returned row has \<open>Nx + 1\<close>.  The function is a value of
  its arguments and has no effect.
\<close>

theorem active_set_classifies:
  assumes "length bi = length ai"
  shows "active_set N ai bi x0 =
     (map (\<lambda>i. ai ! i @ [bi ! i])
        (filter (\<lambda>i. np_sub N (np_dot N (ai ! i) x0) (bi ! i) = 0) [0..<length ai]),
      map (\<lambda>i. ai ! i @ [bi ! i])
        (filter (\<lambda>i. np_sub N (np_dot N (ai ! i) x0) (bi ! i) \<noteq> 0) [0..<length ai]))
    \<and> ((\<forall>r\<in>set ai. length r = Nx) \<longrightarrow>
         (\<forall>r\<in>set (fst (active_set N ai bi x0) @ snd (active_set N ai bi x0)).
            length r = Nx + 1))"
proof -
  have eq: "active_set N ai bi x0 =
     (map (\<lambda>i. ai ! i @ [bi ! i])
        (filter (\<lambda>i. np_sub N (np_dot N (ai ! i) x0) (bi ! i) = 0) [0..<length ai]),
      map (\<lambda>i. ai ! i @ [bi ! i])
        (filter (\<lambda>i. np_sub N (np_dot N (ai ! i) x0) (bi ! i) \<noteq> 0) [0..<length ai]))"
    unfolding active_set_filter [OF assms] zip_nth_upt [OF assms]
    by (simp add: filter_map comp_def)
  show ?thesis
    unfolding eq by auto
qed

theorem active_set_classifies_witness:
  "active_set exact [[1, -2], [-1, -2], [-1, 2], [1, 0], [0, 1]] [-2, -6, -2, 0, 0] [2, 0]
     = ([[-1, 2, -2], [0, 1, 0]], [[1, -2, -2], [-1, -2, -6], [1, 0, 0]])
   \<and> map length (fst (active_set exact [[1, -2], [-1, -2], [-1, 2], [1, 0], [0, 1]]
          [-2, -6, -2, 0, 0] [2, 0])) = [3, 3]"
  using active_set_classifies [of "[-2, -6, -2, 0, 0]"
      "[[1, -2], [-1, -2], [-1, 2], [1, 0], [0, 1]]" exact "[2, 0]" 2]
  by (simp add: upt_rec [of 0 5] upt_rec [of 1 5] upt_rec [of 2 5] upt_rec [of 3 5]
      upt_rec [of 4 5])

text \<open>
  C7 states the test on the residual itself.  In float64 the row \<open>x\<^sub>1 + x\<^sub>2 \<ge> 10\<^sup>1\<^sup>6\<close> has the
  residual 1 at \<open>(10\<^sup>1\<^sup>6, 1)\<close>; the computed residual is 0 and the row is returned as active.
\<close>

theorem rounded_residual_is_active:
  "dot [1, 1] [10 ^ 16, 1] - 10 ^ 16 = 1
   \<and> active_set float64 [[1, 1]] [10 ^ 16] [10 ^ 16, 1] = ([[1, 1, 10 ^ 16]], [])"
  by (simp add: active_set_def vec_sub_def mat_vec_def hstack_col_def float64_simps fl_eval)

section \<open>One pass of the loop\<close>

lemma count_nonzero_zero: "int Nx - int (count_nonzero pk) = int Nx \<longleftrightarrow> (\<forall>v\<in>set pk. v = 0)"
  by (auto simp: count_nonzero_def filter_empty_conv)

lemma lambda_inequality_drop: "(if length l > Ne then drop Ne l else []) = drop Ne l"
  by simp

lemma argmin_scan_first_min:
  assumes "n < length pre" "pre ! n = best" "\<forall>j<length pre. best \<le> pre ! j" "\<forall>j<n. best < pre ! j"
  shows "first_min (pre @ vs) (argmin_scan best n (length pre) vs)"
  using assms
proof (induction vs arbitrary: best n pre)
  case Nil
  then show ?case by (auto simp: first_min_def list_all_length)
next
  case (Cons v vs)
  show ?case
  proof (cases "v < best")
    case True
    have "first_min ((pre @ [v]) @ vs) (argmin_scan v (length pre) (length (pre @ [v])) vs)"
    proof (rule Cons.IH)
      show "\<forall>j<length (pre @ [v]). v \<le> (pre @ [v]) ! j"
        using Cons.prems(3) True by (auto simp: nth_append less_Suc_eq)
      show "\<forall>j<length pre. v < (pre @ [v]) ! j"
        using Cons.prems(3) True by (auto simp: nth_append)
    qed simp_all
    then show ?thesis using True by simp
  next
    case False
    have "first_min ((pre @ [v]) @ vs) (argmin_scan best n (length (pre @ [v])) vs)"
    proof (rule Cons.IH)
      show "\<forall>j<length (pre @ [v]). best \<le> (pre @ [v]) ! j"
        using Cons.prems(3) False by (auto simp: nth_append less_Suc_eq)
      show "\<forall>j<n. best < (pre @ [v]) ! j"
        using Cons.prems(1,4) by (auto simp: nth_append)
    qed (use Cons.prems in \<open>simp_all add: nth_append\<close>)
    then show ?thesis using False by simp
  qed
qed

lemma np_argmin_first_min:
  assumes "xs \<noteq> []"
  shows "\<exists>n. np_argmin xs = Inr n \<and> first_min xs n"
proof -
  obtain x ys where xs: "xs = x # ys" using assms by (cases xs) auto
  have "first_min ([x] @ ys) (argmin_scan x 0 (length [x]) ys)"
    by (rule argmin_scan_first_min) simp_all
  then show ?thesis by (simp add: xs np_argmin_def)
qed

lemma first_min_unique: "first_min xs n \<Longrightarrow> first_min xs m \<Longrightarrow> n = m"
  unfolding first_min_def list_all_length
  by (metis leD length_take linorder_neqE_nat min.absorb2 nat_less_le nth_take order.strict_trans)

lemma length_kkt_lhs: "length G = Nx \<Longrightarrow> length (kkt_lhs N Nx G A) = Nx + length A"
  by (simp add: kkt_lhs_def Let_def vstack_def hstack_def mat_neg_def transpose_n_def zeros_def)

lemma multipliers_per_row:
  assumes sub: "QP_subproblem N np_inv G c (ws s) (xk s) = Inr (pk, lambda_k)"
    and G: "length G = length (xk s)"
    and shape: "\<And>K Ki. np_inv K = Some Ki \<Longrightarrow> length Ki = length K"
    and wsinv: "ws s = vstack we (ws_active s)" and Ne: "length we = Ne"
  shows "length lambda_k = Ne + length (ws_active s)"
proof -
  let ?K = "kkt_lhs N (length (xk s)) G (map butlast (ws s))"
  obtain Ki where Ki: "np_inv ?K = Some Ki"
    and lk: "lambda_k = drop (length (xk s))
        (map (snap N) (mat_vec N Ki (kkt_rhs N G c (length (ws s)) (xk s))))"
    using sub unfolding QP_subproblem_def Let_def by (auto split: option.splits)
  have "length Ki = length (xk s) + length (ws s)"
    using shape [OF Ki] length_kkt_lhs [OF G, of N "map butlast (ws s)"] by simp
  then show ?thesis
    by (simp add: lk mat_vec_def wsinv vstack_def Ne)
qed

lemma gauss_jordan_length: "gauss_jordan N js M = Some M' \<Longrightarrow> length M' = length M"
proof (induction js arbitrary: M)
  case Nil
  then show ?case by simp
next
  case (Cons j js)
  then show ?case
    by (auto simp: Let_def split: option.splits dest!: Cons.IH)
qed

lemma exact_inv_length: "exact_inv K = Some Ki \<Longrightarrow> length Ki = length K"
  by (auto simp: exact_inv_def gauss_inv_def Let_def hstack_def identity_def
      dest!: gauss_jordan_length)

text \<open>
  C5.  Take a pass from a state whose working set is the equalities followed by the active
  rows, where \<open>np.linalg.inv\<close> returns matrices of the shape of its argument, in any
  arithmetic of the arrays.  If the step \<open>p\<^sub>k\<close> returned by the subproblem is all zeros and
  some entry of the inequality block of \<open>lambda_k\<close> (the entries after the first \<open>Ne\<close>) is
  negative, let \<open>n\<close> be the first index of the least entry of that block.  The pass takes
  the row at index \<open>n\<close> out of the active set, which keeps its other rows in their order,
  appends that row to the inactive set, rebuilds the working set as the equalities followed
  by the remaining active rows, and leaves \<open>x\<^sub>k\<close> as it is.
\<close>

theorem drop_most_negative:
  assumes sub: "QP_subproblem N np_inv G c (ws s) (xk s) = Inr (pk, lambda_k)"
    and zero: "\<forall>v\<in>set pk. v = 0"
    and neg: "\<exists>v\<in>set (drop Ne lambda_k). v < 0"
    and G: "length G = length (xk s)"
    and shape: "\<And>K Ki. np_inv K = Some Ki \<Longrightarrow> length Ki = length K"
    and wsinv: "ws s = vstack we (ws_active s)" and Ne: "length we = Ne"
  shows "\<exists>n. first_min (drop Ne lambda_k) n \<and> n < length (ws_active s) \<and>
     QP_step N np_inv G c Nx Ne we s =
       Continue \<lparr>xk = xk s,
                 ws_active = take n (ws_active s) @ drop (Suc n) (ws_active s),
                 ws_inactive = ws_inactive s @ [ws_active s ! n],
                 ws = we @ take n (ws_active s) @ drop (Suc n) (ws_active s)\<rparr>"
proof -
  have shp: "length lambda_k = Ne + length (ws_active s)"
    by (rule multipliers_per_row [OF sub G shape wsinv Ne])
  have ne: "drop Ne lambda_k \<noteq> []" using neg by auto
  then obtain n where n: "np_argmin (drop Ne lambda_k) = Inr n" "first_min (drop Ne lambda_k) n"
    using np_argmin_first_min by blast
  have lt: "n < length (ws_active s)"
    using n(2) shp by (simp add: first_min_def)
  have notall: "\<not> list_all (\<lambda>v. 0 \<le> v) (drop Ne lambda_k)"
    using neg by (force simp: list_all_iff not_le)
  have "QP_step N np_inv G c Nx Ne we s =
       Continue \<lparr>xk = xk s,
                 ws_active = take n (ws_active s) @ drop (Suc n) (ws_active s),
                 ws_inactive = ws_inactive s @ [ws_active s ! n],
                 ws = we @ take n (ws_active s) @ drop (Suc n) (ws_active s)\<rparr>"
    unfolding QP_step_def sub
    using zero notall n(1) lt
    by (simp add: count_nonzero_zero lambda_inequality_drop vstack_def np_delete_def Let_def
        del: drop_eq_Nil)
  then show ?thesis using n(2) lt by blast
qed

theorem drop_most_negative_witness:
  "first_min (drop 0 [-2, -1]) 0 \<and>
     QP_step exact exact_inv [[2, 0], [0, 2]] [-2, -5] 2 0 []
        \<lparr>xk = [2, 0], ws_active = [[-1, 2, -2], [0, 1, 0]],
          ws_inactive = [[1, -2, -2], [-1, -2, -6], [1, 0, 0]],
          ws = [[-1, 2, -2], [0, 1, 0]]\<rparr>
      = Continue \<lparr>xk = [2, 0], ws_active = [[0, 1, 0]],
                 ws_inactive = [[1, -2, -2], [-1, -2, -6], [1, 0, 0], [-1, 2, -2]],
                 ws = [[0, 1, 0]]\<rparr>"
proof -
  let ?s = "\<lparr>xk = [2, 0], ws_active = [[-1, 2, -2], [0, 1, 0]],
          ws_inactive = [[1, -2, -2], [-1, -2, -6], [1, 0, 0]],
          ws = [[-1, 2, -2], [0, 1, 0 :: rat]]\<rparr>"
  have sub: "QP_subproblem exact exact_inv [[2, 0], [0, 2]] [-2, -5] (ws ?s) (xk ?s)
      = Inr ([0, 0], [-2, -1])"
    by code_simp
  have fm: "first_min (drop 0 [-2, -1]) 0"
    by (simp add: first_min_def)
  obtain n where n: "first_min (drop 0 [-2, -1]) n"
    and step: "QP_step exact exact_inv [[2, 0], [0, 2]] [-2, -5] 2 0 [] ?s =
       Continue \<lparr>xk = xk ?s,
                 ws_active = take n (ws_active ?s) @ drop (Suc n) (ws_active ?s),
                 ws_inactive = ws_inactive ?s @ [ws_active ?s ! n],
                 ws = [] @ take n (ws_active ?s) @ drop (Suc n) (ws_active ?s)\<rparr>"
    using drop_most_negative [where np_inv = exact_inv and N = exact,
        OF sub _ _ _ exact_inv_length, of 0 "[]" 2]
    by (auto simp: vstack_def)
  have "n = 0"
    by (rule first_min_unique [OF n fm])
  then show ?thesis
    using step fm by simp
qed

text \<open>
  C10.  Take a pass from a state whose working set is the equalities followed by the active
  rows, where \<open>np.linalg.inv\<close> returns matrices of the shape of its argument, in any
  arithmetic of the arrays.  If the step
  \<open>p\<^sub>k\<close> returned by the subproblem is all zeros and the active set is empty, the inequality
  block of \<open>lambda_k\<close> is empty and the pass returns \<open>(x\<^sub>k, lambda_k)\<close>: the test that all its
  entries are non-negative holds, and no row is dropped.
\<close>

theorem zero_step_empty_active_returns:
  assumes sub: "QP_subproblem N np_inv G c (ws s) (xk s) = Inr (pk, lambda_k)"
    and zero: "\<forall>v\<in>set pk. v = 0"
    and empty: "ws_active s = []"
    and G: "length G = length (xk s)"
    and shape: "\<And>K Ki. np_inv K = Some Ki \<Longrightarrow> length Ki = length K"
    and wsinv: "ws s = vstack we (ws_active s)" and Ne: "length we = Ne"
  shows "drop Ne lambda_k = [] \<and> QP_step N np_inv G c Nx Ne we s = Return (xk s) lambda_k"
proof -
  have shp: "length lambda_k = Ne + length (ws_active s)"
    by (rule multipliers_per_row [OF sub G shape wsinv Ne])
  show ?thesis
    unfolding QP_step_def sub
    using zero empty shp by (simp add: count_nonzero_zero)
qed

theorem zero_step_empty_active_returns_witness:
  "drop 1 [0 :: rat] = [] \<and> QP_step exact exact_inv [[2, 0], [0, 2]] [0, 0] 2 1 [[1, -1, 0]]
      \<lparr>xk = [0, 0], ws_active = [], ws_inactive = [], ws = [[1, -1, 0]]\<rparr>
     = Return [0, 0] [0]"
proof -
  have sub: "QP_subproblem exact exact_inv [[2, 0], [0, 2]] [0, 0]
      (ws \<lparr>xk = [0, 0], ws_active = [], ws_inactive = [], ws = [[1, -1, 0]]\<rparr>)
      (xk \<lparr>xk = [0, 0], ws_active = [], ws_inactive = [], ws = [[1, -1, 0]]\<rparr>) = Inr ([0, 0], [0])"
    by code_simp
  show ?thesis
    using zero_step_empty_active_returns [where np_inv = exact_inv and N = exact, OF sub _ _ _ exact_inv_length,
        of "[[1, -1, 0]]" 1 2]
    by (simp add: vstack_def)
qed

section \<open>Returning from the loop\<close>

lemma QP_step_Return_iff:
  "QP_step N np_inv G c Nx Ne we s = Return x l \<longleftrightarrow>
     (\<exists>pk. QP_subproblem N np_inv G c (ws s) (xk s) = Inr (pk, l) \<and> (\<forall>v\<in>set pk. v = 0)
        \<and> (\<forall>v\<in>set (drop Ne l). 0 \<le> v) \<and> x = xk s)"
  unfolding QP_step_def Let_def lambda_inequality_drop count_nonzero_zero
  by (auto simp: list_all_iff split: sum.splits prod.splits option.splits if_splits)

lemma ex_less_Suc_split: "(\<exists>k<Suc n. Q k) \<longleftrightarrow> Q 0 \<or> (\<exists>k<n. Q (Suc k))"
  by (auto simp: less_Suc_eq_0_disj)

lemma QP_loop_Return_iff:
  "QP_loop N np_inv G c Nx Ne we n s = Some (ReturnPair x l) \<longleftrightarrow>
     (\<exists>k<n. \<exists>s' pk. QP_iterate N np_inv G c Nx Ne we k s = Some s'
        \<and> QP_subproblem N np_inv G c (ws s') (xk s') = Inr (pk, l) \<and> (\<forall>v\<in>set pk. v = 0)
        \<and> (\<forall>v\<in>set (drop Ne l). 0 \<le> v) \<and> x = xk s')"
proof (induction n arbitrary: s)
  case 0
  then show ?case by simp
next
  case (Suc n)
  have here: "(\<exists>s' pk. QP_iterate N np_inv G c Nx Ne we 0 s = Some s'
        \<and> QP_subproblem N np_inv G c (ws s') (xk s') = Inr (pk, l) \<and> (\<forall>v\<in>set pk. v = 0)
        \<and> (\<forall>v\<in>set (drop Ne l). 0 \<le> v) \<and> x = xk s')
      \<longleftrightarrow> QP_step N np_inv G c Nx Ne we s = Return x l"
    by (simp add: QP_step_Return_iff)
  show ?case
  proof (cases "QP_step N np_inv G c Nx Ne we s")
    case (Continue s1)
    show ?thesis
      unfolding ex_less_Suc_split here
      by (simp add: Continue Suc.IH)
  next
    case (Return x' l')
    show ?thesis
      unfolding ex_less_Suc_split here
      by (auto simp: Return)
  next
    case (Raise e)
    show ?thesis
      unfolding ex_less_Suc_split here
      by (simp add: Raise)
  qed
qed

lemma check_equalities_no_pair [simp]: "check_equalities N ae be x \<noteq> Some (ReturnPair u v)"
  by (simp add: check_equalities_def split: option.splits)

lemma check_inequalities_no_pair [simp]: "check_inequalities N ai bi x \<noteq> Some (ReturnPair u v)"
  by (simp add: check_inequalities_def split: option.splits)

text \<open>
  C2.  \<open>QP_activeset\<close>, allowed \<open>n\<close> passes, returns the pair \<open>(x, l)\<close> exactly when both
  feasibility tests pass and some pass \<open>k + 1 \<le> n\<close> starts in a state \<open>s\<close> where the
  subproblem returns a step whose entries are all zero and the multipliers \<open>l\<close>, every entry
  of \<open>l\<close> after the first \<open>Ne\<close> is \<open>\<ge> 0\<close>, and \<open>x\<close> is the iterate of \<open>s\<close>; it then prints
  \<open>solution find\<close>.  So the multipliers of the active inequality rows are non-negative at
  every pair returned.
\<close>

theorem returns_iff_zero_step_and_nonneg_multipliers:
  "QP_activeset N np_inv n G c ae be ai bi x0 = Some (out, ReturnPair x l) \<longleftrightarrow>
     out = [''solution find''] \<and>
     check_equalities N ae be (default_x0 G x0) = None \<and>
     check_inequalities N ai bi (default_x0 G x0) = None \<and>
     (\<exists>k<n. \<exists>s pk.
        QP_iterate N np_inv G c (length G) (QP_Ne ae) (QP_we ae be) k
          (QP_init N ae be ai bi (default_x0 G x0)) = Some s
        \<and> QP_subproblem N np_inv G c (ws s) (xk s) = Inr (pk, l)
        \<and> (\<forall>v\<in>set pk. v = 0)
        \<and> (\<forall>v\<in>set (drop (QP_Ne ae) l). 0 \<le> v)
        \<and> x = xk s)"
  unfolding QP_loop_Return_iff [symmetric] QP_activeset_def Let_def
  by (auto split: option.splits outcome.splits)

theorem returns_iff_zero_step_and_nonneg_multipliers_witness:
  "QP_activeset exact exact_inv 3 [[2, 0], [0, 2]] [0, 0] (Some [[1, -1]]) (Some [0])
      (Some [[1, 0]]) (Some [1]) (Some [3, 3])
     = Some ([''solution find''], ReturnPair [1, 1] [-2, 4])
   \<and> list_all (\<lambda>v. 0 \<le> v) (drop 1 [-2, 4 :: rat])"
proof -
  have run: "QP_activeset exact exact_inv 3 [[2, 0], [0, 2]] [0, 0] (Some [[1, -1]]) (Some [0])
      (Some [[1, 0]]) (Some [1]) (Some [3, 3])
     = Some ([''solution find''], ReturnPair [1, 1] [-2, 4])"
    by code_simp
  show ?thesis
    using returns_iff_zero_step_and_nonneg_multipliers [of exact exact_inv 3 "[[2, 0], [0, 2]]"
        "[0, 0]" "Some [[1, -1]]" "Some [0]" "Some [[1, 0]]" "Some [1]" "Some [3, 3]"
        "[''solution find'']" "[1, 1]" "[-2, 4]"]
    unfolding run by (auto simp: QP_Ne_def list_all_iff)
qed

section \<open>The step length\<close>

text \<open>
  C1.  Start \<open>QP_activeset\<close> on \<open>G = [[2]]\<close>, \<open>c = [2]\<close>, \<open>x \<ge> 2\<close> and \<open>x \<ge> 1\<close>, \<open>x0 = 3\<close>.  The first
  step is \<open>p = -4\<close>; both rows are inactive with \<open>a\<cdot>p < 0\<close>, with ratios \<open>1/4\<close> and \<open>1/2\<close>.
  The least ratio is \<open>1/4\<close>, of row 0.  The loop of the source compares each ratio with 1
  and not with the least one so far: it keeps the last ratio below 1, so \<open>alpha_k = 1/2\<close> and
  row 1 enters the active set, and the next iterate is \<open>x = 1\<close>, which violates \<open>x \<ge> 2\<close>.
  No operation rounds at this input: the pass is the same in exact and in float64
  arithmetic.
\<close>

theorem step_length_is_last_ratio_below_one:
  "QP_init exact None None (Some [[1], [1]]) (Some [2, 1]) [3]
     = \<lparr>xk = [3], ws_active = [], ws_inactive = [[1, 2], [1, 1]], ws = []\<rparr>
   \<and> QP_subproblem exact exact_inv [[2]] [2] [] [3] = Inr ([-4], [])
   \<and> (2 - dot [1] [3]) / dot [1] [-4] = 1 / 4
   \<and> (1 - dot [1] [3]) / dot [1] [-4] = 1 / 2
   \<and> alpha_loop exact [3] [-4] 0 [[1, 2], [1, 1]] (1, None) = (1 / 2, Some 1)
   \<and> QP_step exact exact_inv [[2]] [2] 1 0 []
        \<lparr>xk = [3], ws_active = [], ws_inactive = [[1, 2], [1, 1]], ws = []\<rparr>
      = Continue \<lparr>xk = [1], ws_active = [[1, 1]], ws_inactive = [[1, 2]], ws = [[1, 1]]\<rparr>
   \<and> QP_init float64 None None (Some [[1], [1]]) (Some [2, 1]) [3]
     = \<lparr>xk = [3], ws_active = [], ws_inactive = [[1, 2], [1, 1]], ws = []\<rparr>
   \<and> QP_subproblem float64 (gauss_inv float64) [[2]] [2] [] [3] = Inr ([-4], [])
   \<and> alpha_loop float64 [3] [-4] 0 [[1, 2], [1, 1]] (1, None) = (1 / 2, Some 1)
   \<and> QP_step float64 (gauss_inv float64) [[2]] [2] 1 0 []
        \<lparr>xk = [3], ws_active = [], ws_inactive = [[1, 2], [1, 1]], ws = []\<rparr>
      = Continue \<lparr>xk = [1], ws_active = [[1, 1]], ws_inactive = [[1, 2]], ws = [[1, 1]]\<rparr>"
proof -
  have e: "QP_init exact None None (Some [[1], [1]]) (Some [2, 1]) [3]
     = \<lparr>xk = [3], ws_active = [], ws_inactive = [[1, 2], [1, 1]], ws = []\<rparr>
   \<and> QP_subproblem exact exact_inv [[2]] [2] [] [3] = Inr ([-4], [])
   \<and> (2 - dot [1] [3]) / dot [1] [-4] = 1 / 4
   \<and> (1 - dot [1] [3]) / dot [1] [-4] = 1 / 2
   \<and> alpha_loop exact [3] [-4] 0 [[1, 2], [1, 1]] (1, None) = (1 / 2, Some 1)
   \<and> QP_step exact exact_inv [[2]] [2] 1 0 []
        \<lparr>xk = [3], ws_active = [], ws_inactive = [[1, 2], [1, 1]], ws = []\<rparr>
      = Continue \<lparr>xk = [1], ws_active = [[1, 1]], ws_inactive = [[1, 2]], ws = [[1, 1]]\<rparr>"
    by code_simp
  have f1: "QP_init float64 None None (Some [[1], [1]]) (Some [2, 1]) [3]
     = \<lparr>xk = [3], ws_active = [], ws_inactive = [[1, 2], [1, 1]], ws = []\<rparr>"
    by (simp add: QP_init_def active_set_def vec_sub_def mat_vec_def hstack_col_def vstack_def
        QP_we_def float64_simps fl_eval)
  have f2: "QP_subproblem float64 (gauss_inv float64) [[2]] [2] [] [3] = Inr ([-4], [])"
    by (simp add: QP_subproblem_def kkt_lhs_def kkt_rhs_def hstack_def vstack_def mat_neg_def
        transpose_n_def zeros_def mat_vec_def vec_add_def vec_neg_def gauss_inv_def identity_def
        snap_def tol_zero_def float64_simps fl_eval)
  have f3: "alpha_loop float64 [3] [-4] 0 [[1, 2], [1, 1]] (1, None) = (1 / 2, Some 1)"
    by (simp add: float64_simps fl_eval)
  have f4: "QP_step float64 (gauss_inv float64) [[2]] [2] 1 0 []
        \<lparr>xk = [3], ws_active = [], ws_inactive = [[1, 2], [1, 1]], ws = []\<rparr>
      = Continue \<lparr>xk = [1], ws_active = [[1, 1]], ws_inactive = [[1, 2]], ws = [[1, 1]]\<rparr>"
    unfolding QP_step_def
    by (simp add: f2 f3 count_nonzero_def vec_add_def vec_scale_def vstack_def np_delete_def
        float64_simps fl_eval)
  show ?thesis
    using e f1 f2 f3 f4 by simp
qed

section \<open>Linear algebra on lists\<close>

lemma dot_Nil_right [simp]: "dot a [] = 0"
  by (cases a) simp_all

lemma dot_lincomb:
  "dot (map (\<lambda>j. x * g j + f j) js) v = x * dot (map g js) v + dot (map f js) v"
proof (induction js arbitrary: v)
  case Nil
  then show ?case by simp
next
  case (Cons j js)
  then show ?case by (cases v) (simp_all add: algebra_simps)
qed

lemma dot_map_zero [simp]: "dot (map (\<lambda>j. 0) js) v = 0"
proof (induction js arbitrary: v)
  case Nil
  then show ?case by simp
next
  case (Cons j js)
  then show ?case by (cases v) simp_all
qed

lemma dot_replicate_zero [simp]: "dot (replicate n 0) v = 0"
  using dot_map_zero [of "[0..<n]" v] by (simp add: map_replicate_const)

lemma dot_replicate_zero_right [simp]: "dot a (replicate n 0) = 0"
proof (induction a arbitrary: n)
  case Nil
  then show ?case by simp
next
  case (Cons x a)
  then show ?case by (cases n) simp_all
qed

lemma dot_uminus: "dot (map uminus r) v = - dot r v"
  by (induction r v rule: dot.induct) simp_all

lemma dot_uminus_right: "dot r (map uminus v) = - dot r v"
  by (induction r v rule: dot.induct) simp_all

lemma dot_append:
  "dot (a @ b) v = dot a (take (length a) v) + dot b (drop (length a) v)"
proof (induction a arbitrary: v)
  case Nil
  then show ?case by simp
next
  case (Cons x a)
  then show ?case by (cases v) simp_all
qed

lemma dot_add_right:
  "length x = length y \<Longrightarrow> dot a (vec_add exact x y) = dot a x + dot a y"
proof (induction a arbitrary: x y)
  case Nil
  then show ?case by simp
next
  case (Cons u a)
  then show ?case by (cases x; cases y) (simp_all add: vec_add_def algebra_simps)
qed

lemma dot_scale_right: "dot a (vec_scale exact p t) = dot a p * t"
  by (induction a p rule: dot.induct) (simp_all add: vec_scale_def algebra_simps)

lemma mat_mul_assoc_row:
  assumes "\<forall>r\<in>set B. length r = n"
  shows "dot (map (\<lambda>j. dot a (map (\<lambda>row. row ! j) B)) [0..<n]) v = dot a (mat_vec exact B v)"
  using assms
proof (induction B arbitrary: a)
  case Nil
  then show ?case by (simp add: mat_vec_def)
next
  case (Cons r B)
  show ?case
  proof (cases a)
    case Nil
    then show ?thesis by simp
  next
    case (Cons x a')
    have r: "map (\<lambda>j. r ! j) [0..<n] = r"
      using Cons.prems map_nth [of r] by simp
    have ih: "dot (map (\<lambda>j. dot a' (map (\<lambda>row. row ! j) B)) [0..<n]) v = dot a' (mat_vec exact B v)"
      using Cons.IH Cons.prems by simp
    show ?thesis
      by (simp add: Cons dot_lincomb r ih mat_vec_def)
  qed
qed

lemma mat_vec_mat_mul:
  assumes "\<forall>r\<in>set B. length r = n"
  shows "mat_vec exact (mat_mul n A B) v = mat_vec exact A (mat_vec exact B v)"
  using mat_mul_assoc_row [OF assms] by (simp add: mat_vec_def mat_mul_def)

lemma dot_sum: "dot a v = (\<Sum>j<min (length a) (length v). a ! j * v ! j)"
  by (induction a v rule: dot.induct) (simp_all add: sum.lessThan_Suc_shift del: sum.lessThan_Suc)

lemma mat_vec_identity:
  assumes "length v = n"
  shows "mat_vec exact (identity n) v = v"
proof (rule nth_equalityI)
  show "length (mat_vec exact (identity n) v) = length v"
    using assms by (simp add: mat_vec_def identity_def)
  fix i assume "i < length (mat_vec exact (identity n) v)"
  then have i: "i < n" by (simp add: mat_vec_def identity_def)
  have "dot (map (\<lambda>j. if i = j then 1 else 0) [0..<n]) v = (\<Sum>j<n. (if i = j then 1 else 0) * v ! j)"
    using assms by (simp add: dot_sum)
  also have "\<dots> = (\<Sum>j<n. if j = i then v ! j else 0)"
    by (rule sum.cong) auto
  also have "\<dots> = v ! i"
    using i by simp
  finally show "mat_vec exact (identity n) v ! i = v ! i"
    using i by (simp add: mat_vec_def identity_def)
qed

lemma right_inverse_solves:
  assumes "\<forall>r\<in>set Ki. length r = n" and "length b = n" and "mat_mul n K Ki = identity n"
  shows "mat_vec exact K (mat_vec exact Ki b) = b"
  using mat_vec_mat_mul [OF assms(1), of K b] assms(2,3) by (simp add: mat_vec_identity)

lemma mat_vec_append: "mat_vec exact (A @ B) v = mat_vec exact A v @ mat_vec exact B v"
  by (simp add: mat_vec_def)

lemma mat_vec_hstack:
  assumes "length P = length Q" and "\<forall>r\<in>set P. length r = n"
  shows "mat_vec exact (hstack P Q) v = vec_add exact (mat_vec exact P (take n v)) (mat_vec exact Q (drop n v))"
  using assms
  by (induction P Q rule: list_induct2) (simp_all add: hstack_def mat_vec_def vec_add_def dot_append)

lemma mat_vec_mat_neg: "mat_vec exact (mat_neg exact B) v = vec_neg exact (mat_vec exact B v)"
  by (simp add: mat_vec_def mat_neg_def vec_neg_def dot_uminus)

lemma mat_vec_zeros: "mat_vec exact (zeros m n) v = replicate m 0"
  by (simp add: mat_vec_def zeros_def)

lemma vec_add_neg: "vec_add exact u (vec_neg exact w) = vec_sub exact u w"
  by (simp add: vec_add_def vec_sub_def vec_neg_def zip_map2 split_def)

lemma vec_add_zero_right: "length u = m \<Longrightarrow> vec_add exact u (replicate m 0) = u"
  by (rule nth_equalityI) (simp_all add: vec_add_def)

lemma vec_add_zero_left: "length u = m \<Longrightarrow> vec_add exact (replicate m 0) u = u"
  by (rule nth_equalityI) (simp_all add: vec_add_def)

lemma length_mat_vec [simp]: "length (mat_vec N A v) = length A"
  by (simp add: mat_vec_def)

lemma length_vec_add [simp]: "length (vec_add N u w) = min (length u) (length w)"
  by (simp add: vec_add_def)

lemma length_vec_neg [simp]: "length (vec_neg N u) = length u"
  by (simp add: vec_neg_def)

lemma length_kkt_rhs:
  "length G = Nx \<Longrightarrow> length c = Nx \<Longrightarrow> length (kkt_rhs N G c M x) = Nx + M"
  by (simp add: kkt_rhs_def)

lemma is_mat_rows: "is_mat m n A \<Longrightarrow> \<forall>r\<in>set A. length r = n"
  by (simp add: is_mat_def list_all_iff)

lemma is_mat_length: "is_mat m n A \<Longrightarrow> length A = m"
  by (simp add: is_mat_def)

lemma mat_vec_kkt_lhs:
  assumes G: "is_mat Nx Nx G" and A: "is_mat M Nx A"
  shows "mat_vec exact (kkt_lhs exact Nx G A) sol =
     vec_sub exact (mat_vec exact G (take Nx sol)) (mat_vec exact (transpose_n Nx A) (drop Nx sol))
     @ mat_vec exact A (take Nx sol)"
proof -
  have lenT: "length G = length (mat_neg exact (transpose_n Nx A))"
    using G by (simp add: is_mat_def mat_neg_def transpose_n_def)
  have top: "mat_vec exact (hstack G (mat_neg exact (transpose_n Nx A))) sol
      = vec_sub exact (mat_vec exact G (take Nx sol)) (mat_vec exact (transpose_n Nx A) (drop Nx sol))"
    unfolding mat_vec_hstack [OF lenT is_mat_rows [OF G]] mat_vec_mat_neg vec_add_neg ..
  have lenZ: "length A = length (zeros M M)"
    using A by (simp add: is_mat_def zeros_def)
  have bot: "mat_vec exact (hstack A (zeros M M)) sol = mat_vec exact A (take Nx sol)"
    unfolding mat_vec_hstack [OF lenZ is_mat_rows [OF A]] mat_vec_zeros
    using A by (simp add: vec_add_zero_right is_mat_def)
  show ?thesis
    using A by (simp add: kkt_lhs_def vstack_def Let_def mat_vec_append top bot is_mat_def)
qed

lemma kkt_solution_blocks:
  assumes G: "is_mat Nx Nx G" and c: "length c = Nx" and Am: "is_mat M Nx A"
    and Ki: "is_mat (Nx + M) (Nx + M) Ki"
    and right_inv: "mat_mul (Nx + M) (kkt_lhs exact Nx G A) Ki = identity (Nx + M)"
    and sol: "sol = mat_vec exact Ki (kkt_rhs exact G c M x)"
  shows "vec_sub exact (mat_vec exact G (take Nx sol)) (mat_vec exact (transpose_n Nx A) (drop Nx sol))
        = vec_neg exact (vec_add exact (mat_vec exact G x) c)
    \<and> mat_vec exact A (take Nx sol) = replicate M 0"
proof -
  have lr: "length (kkt_rhs exact G c M x) = Nx + M"
    using G c by (simp add: length_kkt_rhs is_mat_def)
  have "mat_vec exact (kkt_lhs exact Nx G A) sol = kkt_rhs exact G c M x"
    unfolding sol by (rule right_inverse_solves [OF is_mat_rows [OF Ki] lr right_inv])
  then have "vec_sub exact (mat_vec exact G (take Nx sol)) (mat_vec exact (transpose_n Nx A) (drop Nx sol))
      @ mat_vec exact A (take Nx sol) = vec_neg exact (vec_add exact (mat_vec exact G x) c) @ replicate M 0"
    by (simp add: mat_vec_kkt_lhs [OF G Am] kkt_rhs_def)
  moreover have "length (vec_sub exact (mat_vec exact G (take Nx sol)) (mat_vec exact (transpose_n Nx A) (drop Nx sol)))
      = length (vec_neg exact (vec_add exact (mat_vec exact G x) c))"
    using G c by (simp add: vec_sub_def transpose_n_def is_mat_def)
  ultimately show ?thesis
    by simp
qed

section \<open>The subproblem solves the KKT system\<close>

section \<open>The subproblem solves the KKT system\<close>

text \<open>
  C3, as the code has it.  Let \<open>x\<close> have \<open>Nx\<close> entries, let the working set \<open>W\<close> have \<open>M\<close> rows
  \<open>[A | b]\<close>, and let \<open>np.linalg.inv\<close> return \<open>Ki\<close> for the KKT matrix \<open>[[G, -A\<^sup>T], [A, 0]]\<close>.
  In any arithmetic of the arrays, \<open>QP_subproblem\<close> returns the first \<open>Nx\<close> and the remaining
  entries of the solution \<open>sol = Ki @ rhs\<close>, each entry of absolute value below \<open>tol_zero\<close>
  replaced by 0 before the split.  In exact arithmetic, for arrays of the documented
  shapes and \<open>Ki\<close> a right inverse of the KKT matrix, the two parts \<open>p\<close> and \<open>\<lambda>\<close> of \<open>sol\<close>
  before that replacement have \<open>Nx\<close> and \<open>M\<close> entries and satisfy
  \<open>G p - A\<^sup>T \<lambda> = -(G x + c)\<close> and \<open>A p = 0\<close>.
\<close>

theorem QP_subproblem_solves_kkt:
  assumes x: "length x = Nx" and M: "length W = M"
    and A: "A = map butlast W"
    and inv: "np_inv (kkt_lhs N Nx G A) = Some Ki"
    and sol: "sol = mat_vec N Ki (kkt_rhs N G c M x)"
  shows "QP_subproblem N np_inv G c W x =
           Inr (take Nx (map (\<lambda>v. if \<bar>v\<bar> < np_tol N then 0 else v) sol),
                drop Nx (map (\<lambda>v. if \<bar>v\<bar> < np_tol N then 0 else v) sol))
    \<and> (N = exact \<and> is_mat Nx Nx G \<and> length c = Nx \<and> is_mat M (Nx + 1) W
         \<and> is_mat (Nx + M) (Nx + M) Ki
         \<and> mat_mul (Nx + M) (kkt_lhs exact Nx G A) Ki = identity (Nx + M)
       \<longrightarrow> length (take Nx sol) = Nx \<and> length (drop Nx sol) = M
         \<and> vec_sub exact (mat_vec exact G (take Nx sol))
               (mat_vec exact (transpose_n Nx A) (drop Nx sol))
             = vec_neg exact (vec_add exact (mat_vec exact G x) c)
         \<and> mat_vec exact A (take Nx sol) = replicate M 0)"
proof -
  have s: "snap N = (\<lambda>v. if \<bar>v\<bar> < np_tol N then 0 else v)"
    by (rule ext) (simp add: snap_def tol_zero_def)
  have run: "QP_subproblem N np_inv G c W x =
           Inr (take Nx (map (\<lambda>v. if \<bar>v\<bar> < np_tol N then 0 else v) sol),
                drop Nx (map (\<lambda>v. if \<bar>v\<bar> < np_tol N then 0 else v) sol))"
    using inv x M by (simp add: QP_subproblem_def Let_def A sol s)
  have "length (take Nx sol) = Nx \<and> length (drop Nx sol) = M
         \<and> vec_sub exact (mat_vec exact G (take Nx sol))
               (mat_vec exact (transpose_n Nx A) (drop Nx sol))
             = vec_neg exact (vec_add exact (mat_vec exact G x) c)
         \<and> mat_vec exact A (take Nx sol) = replicate M 0"
    if N: "N = exact" and G: "is_mat Nx Nx G" and c: "length c = Nx"
      and wsr: "is_mat M (Nx + 1) W" and Ki: "is_mat (Nx + M) (Nx + M) Ki"
      and right_inv: "mat_mul (Nx + M) (kkt_lhs exact Nx G A) Ki = identity (Nx + M)"
  proof -
    have Am: "is_mat M Nx A"
      using wsr by (simp add: A is_mat_def list_all_iff)
    have sol': "sol = mat_vec exact Ki (kkt_rhs exact G c M x)"
      using sol N by simp
    have len: "length sol = Nx + M"
      using Ki by (simp add: sol' is_mat_def)
    show ?thesis
      using len kkt_solution_blocks [OF G c Am Ki right_inv sol'] by simp
  qed
  then show ?thesis using run by blast
qed

theorem QP_subproblem_solves_kkt_witness:
  "QP_subproblem exact exact_inv [[2, 0], [0, 2]] [- 2, - (2 / 10 ^ 11)] [[1, - (10 ^ 11), 0]]
       [0, 0]
     = Inr ([1, 0], [0])
   \<and> vec_sub exact (mat_vec exact [[2, 0], [0, 2]] [1, 1 / 10 ^ 11])
        (mat_vec exact (transpose_n 2 [[1, - (10 ^ 11)]]) [0])
        = vec_neg exact (vec_add exact (mat_vec exact [[2, 0], [0, 2]] [0, 0])
            [- 2, - (2 / 10 ^ 11)])
   \<and> mat_vec exact [[1, - (10 ^ 11)]] [1, 1 / 10 ^ 11] = [0]"
proof -
  let ?Ki = "[[5000000000000000000000 / 10000000000000000000001,
              50000000000 / 10000000000000000000001, 1 / 10000000000000000000001],
             [50000000000 / 10000000000000000000001, 1 / 20000000000000000000002,
              - (100000000000 / 10000000000000000000001)],
             [- (1 / 10000000000000000000001), 100000000000 / 10000000000000000000001,
              2 / 10000000000000000000001 :: rat]]"
  have hx: "length [0, 0 :: rat] = 2" and hM: "length [[1, - (10 ^ 11), 0 :: rat]] = 1"
    by simp_all
  have hA: "[[1, - (10 ^ 11)]] = map butlast [[1, - (10 ^ 11), 0 :: rat]]" by simp
  have hinv: "exact_inv (kkt_lhs exact 2 [[2, 0], [0, 2]] [[1, - (10 ^ 11)]]) = Some ?Ki"
    by code_simp
  have hsol: "[1, 1 / 10 ^ 11, 0] = mat_vec exact ?Ki
      (kkt_rhs exact [[2, 0], [0, 2]] [- 2, - (2 / 10 ^ 11)] 1 [0, 0])"
    by code_simp
  have h1: "is_mat 2 2 [[2, 0], [0, 2 :: rat]]" and h2: "is_mat 1 (2 + 1) [[1, - (10 ^ 11), 0 :: rat]]"
    and h3: "is_mat (2 + 1) (2 + 1) ?Ki"
    by (simp_all add: is_mat_def)
  have h4: "mat_mul (2 + 1) (kkt_lhs exact 2 [[2, 0], [0, 2]] [[1, - (10 ^ 11)]]) ?Ki
      = identity (2 + 1)"
    by code_simp
  show ?thesis
    using QP_subproblem_solves_kkt [where np_inv = exact_inv and N = exact and G = "[[2, 0], [0, 2]]"
        and c = "[- 2, - (2 / 10 ^ 11)]", OF hx hM hA hinv hsol] h1 h2 h3 h4
    by simp
qed

text \<open>
  C3 states the two equations for what the code computes.  In float64 take \<open>G = [[49]]\<close>,
  \<open>c = [-1]\<close>, no row and \<open>x = [0]\<close>.  The KKT matrix \<open>[[49]]\<close> is invertible; the inverse in
  float64 is the rounded \<open>1/49\<close>, the solution \<open>p\<close> is that number, no entry is below
  \<open>tol_zero\<close>, and \<open>G p = 49 p\<close> is not \<open>-(G x + c) = 1\<close>.
\<close>

theorem rounded_solution_misses_kkt:
  "exact_inv [[49]] = Some [[1 / 49]]
   \<and> gauss_inv float64 [[49]] = Some [[5882252574524729 / 288230376151711744]]
   \<and> QP_subproblem float64 (gauss_inv float64) [[49]] [- 1] [] [0]
        = Inr ([5882252574524729 / 288230376151711744], [])
   \<and> vec_sub exact (mat_vec exact [[49]] [5882252574524729 / 288230376151711744])
        (mat_vec exact (transpose_n 1 []) [])
        \<noteq> vec_neg exact (vec_add exact (mat_vec exact [[49]] [0]) [- 1])"
proof -
  have a: "exact_inv [[49]] = Some [[1 / 49]]"
    by code_simp
  have b: "gauss_inv float64 [[49]] = Some [[5882252574524729 / 288230376151711744]]"
    by (simp add: gauss_inv_def identity_def hstack_def float64_simps fl_eval)
  have c: "QP_subproblem float64 (gauss_inv float64) [[49]] [- 1] [] [0]
        = Inr ([5882252574524729 / 288230376151711744], [])"
    by (simp add: QP_subproblem_def kkt_lhs_def kkt_rhs_def hstack_def vstack_def mat_neg_def
        transpose_n_def zeros_def mat_vec_def vec_add_def vec_neg_def b
        snap_def tol_zero_def float64_simps fl_eval)
  have d: "vec_sub exact (mat_vec exact [[49]] [5882252574524729 / 288230376151711744])
        (mat_vec exact (transpose_n 1 []) [])
        \<noteq> vec_neg exact (vec_add exact (mat_vec exact [[49]] [0]) [- 1])"
    by (simp add: vec_sub_def mat_vec_def transpose_n_def vec_neg_def vec_add_def)
  show ?thesis using a b c d by simp
qed

section \<open>The problem without constraints\<close>

lemma kkt_lhs_no_rows: "length G = Nx \<Longrightarrow> kkt_lhs exact Nx G [] = G"
  by (simp add: kkt_lhs_def vstack_def hstack_def zeros_def mat_neg_def transpose_n_def)
    (rule nth_equalityI, simp_all)

lemma mat_vec_zero_vec: "mat_vec exact G (replicate n 0) = replicate (length G) 0"
  by (simp add: mat_vec_def map_replicate_const)

lemma mat_vec_neg_right: "mat_vec exact A (vec_neg exact u) = vec_neg exact (mat_vec exact A u)"
  by (simp add: mat_vec_def vec_neg_def dot_uminus_right)

lemma mat_vec_add_right:
  "length u = length w \<Longrightarrow> mat_vec exact A (vec_add exact u w) = vec_add exact (mat_vec exact A u) (mat_vec exact A w)"
proof (rule nth_equalityI)
  show "length (mat_vec exact A (vec_add exact u w)) = length (vec_add exact (mat_vec exact A u) (mat_vec exact A w))"
    by simp
  fix i assume "i < length (mat_vec exact A (vec_add exact u w))"
  then have i: "i < length A" by simp
  assume "length u = length w"
  then have "dot (A ! i) (vec_add exact u w) = dot (A ! i) u + dot (A ! i) w"
    by (rule dot_add_right)
  then show "mat_vec exact A (vec_add exact u w) ! i = vec_add exact (mat_vec exact A u) (mat_vec exact A w) ! i"
    using i by (simp add: mat_vec_def vec_add_def)
qed

lemma vec_scale_one: "vec_scale exact p 1 = p"
  by (simp add: vec_scale_def)

lemma snap_zero [simp]: "snap exact 0 = 0"
  by (simp add: snap_def)

lemma snap_residual: "snap exact (- snap exact (- w) - w) = 0"
  by (simp add: snap_def)

lemma snap_second_solve:
  "map (snap exact) (vec_neg exact (vec_add exact (map (snap exact) (vec_neg exact w)) w))
     = replicate (length w) 0"
  by (rule nth_equalityI) (simp_all add: vec_neg_def vec_add_def snap_residual)

lemma QP_subproblem_no_rows:
  assumes "length G = length x" and "np_inv G = Some Gi" and "length Gi = length x"
  shows "QP_subproblem exact np_inv G c [] x
     = Inr (map (snap exact) (mat_vec exact Gi (vec_neg exact (vec_add exact (mat_vec exact G x) c))), [])"
  using assms by (simp add: QP_subproblem_def kkt_lhs_no_rows kkt_rhs_def)

lemma unconstrained_passes:
  assumes G: "is_mat Nx Nx G" and c: "length c = Nx"
    and inv: "np_inv G = Some Gi" and Gi: "is_mat Nx Nx Gi"
    and left: "mat_mul Nx Gi G = identity Nx"
    and right: "mat_mul Nx G Gi = identity Nx"
    and q: "q = mat_vec exact Gi (vec_neg exact c)"
  shows "vec_add exact (mat_vec exact G q) c = replicate Nx 0
    \<and> QP_activeset exact np_inv (Suc (Suc n)) G c None None None None None
        = Some ([''solution find''], ReturnPair (map (snap exact) q) [])
    \<and> (if \<forall>v\<in>set (map (snap exact) q). v = 0
        then QP_activeset exact np_inv 1 G c None None None None None
               = Some ([''solution find''], ReturnPair (map (snap exact) q) [])
        else QP_activeset exact np_inv 1 G c None None None None None = None)"
proof -
  let ?p = "map (snap exact) q"
  let ?z = "replicate Nx (0 :: rat)"
  let ?s0 = "\<lparr>xk = ?z, ws_active = [], ws_inactive = [], ws = []\<rparr>"
  let ?s1 = "\<lparr>xk = ?p, ws_active = [], ws_inactive = [], ws = []\<rparr>"
  have lG: "length G = Nx" and lGi: "length Gi = Nx"
    using G Gi by (simp_all add: is_mat_def)
  have lq: "length q = Nx" by (simp add: q lGi)
  have stat: "vec_add exact (mat_vec exact G q) c = ?z"
  proof -
    have "mat_vec exact G q = vec_neg exact c"
      unfolding q by (rule right_inverse_solves [OF is_mat_rows [OF Gi] _ right]) (simp add: c)
    then show ?thesis
      using c by (simp add: vec_add_def vec_neg_def) (rule nth_equalityI, simp_all)
  qed
  have init: "QP_init exact None None None None ?z = ?s0"
    by (simp add: QP_init_def vstack_def QP_we_def)
  have sub0: "QP_subproblem exact np_inv G c (ws ?s0) (xk ?s0) = Inr (?p, [])"
    using QP_subproblem_no_rows [of G ?z np_inv Gi c] lG inv lGi c
    by (simp add: mat_vec_zero_vec vec_add_zero_left q)
  have sub1: "QP_subproblem exact np_inv G c (ws ?s1) (xk ?s1) = Inr (?z, [])"
  proof -
    have GiG: "mat_vec exact Gi (mat_vec exact G ?p) = ?p"
      by (rule right_inverse_solves [OF is_mat_rows [OF G] _ left]) (simp add: lq)
    have e: "mat_vec exact Gi (vec_neg exact (vec_add exact (mat_vec exact G ?p) c))
        = vec_neg exact (vec_add exact ?p (mat_vec exact Gi c))"
      using c lG by (simp add: mat_vec_neg_right mat_vec_add_right GiG)
    have pq: "?p = map (snap exact) (vec_neg exact (mat_vec exact Gi c))"
      by (simp add: q mat_vec_neg_right)
    have "map (snap exact) (vec_neg exact (vec_add exact ?p (mat_vec exact Gi c))) = ?z"
      unfolding pq by (simp add: snap_second_solve lGi)
    then have "map (snap exact)
        (mat_vec exact Gi (vec_neg exact (vec_add exact (mat_vec exact G ?p) c))) = ?z"
      by (simp only: e)
    then show ?thesis
      using QP_subproblem_no_rows [of G ?p np_inv Gi c] lG inv lGi lq by simp
  qed
  have ret1: "QP_step exact np_inv G c Nx 0 [] ?s1 = Return ?p []"
    unfolding QP_step_def sub1 by (simp add: count_nonzero_zero)
  have zero_case: "\<forall>v\<in>set ?p. v = 0 \<Longrightarrow> QP_step exact np_inv G c Nx 0 [] ?s0 = Return ?p []"
  proof -
    assume z: "\<forall>v\<in>set ?p. v = 0"
    have "?p = ?z"
      using z lq by (intro nth_equalityI) simp_all
    moreover have "QP_step exact np_inv G c Nx 0 [] ?s0 = Return ?z []"
      unfolding QP_step_def sub0 using z by (simp add: count_nonzero_zero)
    ultimately show ?thesis by simp
  qed
  have nonzero_case: "\<not> (\<forall>v\<in>set ?p. v = 0) \<Longrightarrow> QP_step exact np_inv G c Nx 0 [] ?s0 = Continue ?s1"
  proof -
    assume nz: "\<not> (\<forall>v\<in>set ?p. v = 0)"
    show ?thesis
      unfolding QP_step_def sub0 using nz lq
      by (simp add: count_nonzero_zero vec_scale_one vec_add_zero_left)
  qed
  have two: "QP_loop exact np_inv G c Nx 0 [] (Suc (Suc n)) ?s0 = Some (ReturnPair ?p [])"
    by (cases "\<forall>v\<in>set ?p. v = 0") (simp_all add: zero_case nonzero_case ret1)
  have one: "QP_loop exact np_inv G c Nx 0 [] 1 ?s0
      = (if \<forall>v\<in>set ?p. v = 0 then Some (ReturnPair ?p []) else None)"
    by (cases "\<forall>v\<in>set ?p. v = 0") (simp_all add: zero_case nonzero_case)
  have top: "QP_activeset exact np_inv k G c None None None None None
      = (case QP_loop exact np_inv G c Nx 0 [] k ?s0 of
           None \<Rightarrow> None
         | Some (ReturnPair x l) \<Rightarrow> Some ([''solution find''], ReturnPair x l)
         | Some out \<Rightarrow> Some ([], out))" for k
    by (simp add: QP_activeset_def check_equalities_def check_inequalities_def default_x0_def
        QP_Ne_def QP_we_def init lG)
  show ?thesis
    unfolding top two one using stat by simp
qed



text \<open>
  C9, as the code has it.  In exact arithmetic let \<open>G\<close> be invertible, \<open>np.linalg.inv\<close>
  returning its inverse \<open>Gi\<close>, and \<open>q = -Gi c\<close>, so that \<open>G q + c = 0\<close>.  Called with no
  constraint and no \<open>x0\<close>, \<open>QP_activeset\<close> returns \<open>(x, [])\<close> where \<open>x\<close> is \<open>q\<close> with every entry
  of absolute value below \<open>tol_zero\<close> replaced by 0.  It returns in the first pass when all
  entries of \<open>x\<close> are zero, and otherwise in the second pass and not in the first: the first
  pass takes the full step \<open>x\<close> from the origin, the second finds a zero step and no
  multiplier to test.
\<close>

theorem unconstrained_one_or_two_passes:
  assumes G: "is_mat Nx Nx G" and c: "length c = Nx"
    and inv: "np_inv G = Some Gi" and Gi: "is_mat Nx Nx Gi"
    and left: "mat_mul Nx Gi G = identity Nx"
    and right: "mat_mul Nx G Gi = identity Nx"
    and q: "q = mat_vec exact Gi (vec_neg exact c)"
    and xs: "xs = map (\<lambda>v. if \<bar>v\<bar> < 1 / 10 ^ 10 then 0 else v) q"
  shows "vec_add exact (mat_vec exact G q) c = replicate Nx 0
    \<and> QP_activeset exact np_inv (Suc (Suc n)) G c None None None None None
        = Some ([''solution find''], ReturnPair xs [])
    \<and> (if \<forall>v\<in>set xs. v = 0
        then QP_activeset exact np_inv 1 G c None None None None None
               = Some ([''solution find''], ReturnPair xs [])
        else QP_activeset exact np_inv 1 G c None None None None None = None)"
proof -
  have "snap exact = (\<lambda>v. if \<bar>v\<bar> < 1 / 10 ^ 10 then 0 else v)"
    by (rule ext) (simp add: snap_def tol_zero_def)
  then have e: "xs = map (snap exact) q"
    using xs by simp
  show ?thesis
    unfolding e
    by (rule unconstrained_passes [where np_inv = np_inv and n = n, OF G c inv Gi left right q])
qed

theorem unconstrained_one_or_two_passes_witness:
  "vec_add exact (mat_vec exact [[2, 1], [1, 2]] [-2, 1]) [3, 0] = replicate 2 0
   \<and> QP_activeset exact exact_inv (Suc (Suc 0)) [[2, 1], [1, 2]] [3, 0] None None None None None
        = Some ([''solution find''], ReturnPair [-2, 1] [])
   \<and> QP_activeset exact exact_inv 1 [[2, 1], [1, 2]] [3, 0] None None None None None = None"
proof -
  have h1: "is_mat 2 2 [[2, 1], [1, 2]]" by (simp add: is_mat_def)
  have h2: "length [3, 0 :: rat] = 2" by simp
  have h3: "exact_inv [[2, 1], [1, 2]] = Some [[2 / 3, - (1 / 3)], [- (1 / 3), 2 / 3]]"
    by code_simp
  have h4: "is_mat 2 2 [[2 / 3, - (1 / 3)], [- (1 / 3), 2 / 3]]" by (simp add: is_mat_def)
  have h5: "mat_mul 2 [[2 / 3, - (1 / 3)], [- (1 / 3), 2 / 3]] [[2, 1], [1, 2]] = identity 2"
    by code_simp
  have h6: "mat_mul 2 [[2, 1], [1, 2]] [[2 / 3, - (1 / 3)], [- (1 / 3), 2 / 3]] = identity 2"
    by code_simp
  have h7: "[-2, 1] = mat_vec exact [[2 / 3, - (1 / 3)], [- (1 / 3), 2 / 3]] (vec_neg exact [3, 0])"
    by code_simp
  have h8: "[-2, 1] = map (\<lambda>v. if \<bar>v\<bar> < 1 / 10 ^ 10 then 0 else v) [-2, 1 :: rat]"
    by simp
  show ?thesis
    using unconstrained_one_or_two_passes [where np_inv = exact_inv and n = 0,
        OF h1 h2 h3 h4 h5 h6 h7 h8]
    by simp
qed

text \<open>
  C9 states two passes for every \<open>G\<close> and \<open>c\<close>.  For \<open>G = [[2]]\<close> and \<open>c = [0]\<close> the first step
  is already zero, and the function returns in the first pass, in exact and in float64
  arithmetic.  For \<open>G = [[49]]\<close> and \<open>c = [49000000]\<close> in float64 the inverse is the rounded
  \<open>1/49\<close>, the first step is \<open>-999999.9999999999\<close>, the second step is about
  \<open>-1.52\<cdot>10\<^sup>-\<^sup>1\<^sup>0\<close>, which is not below \<open>tol_zero\<close>, and the function returns in the third
  pass.
\<close>

theorem one_pass_and_three_passes:
  "exact_inv [[2]] = Some [[1 / 2]]
   \<and> QP_activeset exact exact_inv 1 [[2]] [0] None None None None None
        = Some ([''solution find''], ReturnPair [0] [])
   \<and> QP_activeset float64 (gauss_inv float64) 1 [[2]] [0] None None None None None
        = Some ([''solution find''], ReturnPair [0] [])
   \<and> exact_inv [[49]] = Some [[1 / 49]]
   \<and> QP_activeset float64 (gauss_inv float64) 2 [[49]] [49000000] None None None None None
        = None
   \<and> QP_activeset float64 (gauss_inv float64) 3 [[49]] [49000000] None None None None None
        = Some ([''solution find''], ReturnPair [- 1000000] [])"
proof -
  note defs = QP_activeset_def default_x0_def check_equalities_def check_inequalities_def
    QP_init_def QP_Ne_def QP_we_def vstack_def QP_step_def QP_subproblem_def kkt_lhs_def
    kkt_rhs_def hstack_def mat_neg_def transpose_n_def zeros_def mat_vec_def vec_add_def
    vec_neg_def vec_scale_def gauss_inv_def identity_def snap_def tol_zero_def
    count_nonzero_def float64_simps fl_eval
  have a: "exact_inv [[2]] = Some [[1 / 2]]" "exact_inv [[49]] = Some [[1 / 49]]"
    by code_simp+
  have b: "QP_activeset exact exact_inv 1 [[2]] [0] None None None None None
        = Some ([''solution find''], ReturnPair [0] [])"
    by code_simp
  have c: "QP_activeset float64 (gauss_inv float64) 1 [[2]] [0] None None None None None
        = Some ([''solution find''], ReturnPair [0] [])"
    by (simp add: defs)
  have d: "QP_activeset float64 (gauss_inv float64) 2 [[49]] [49000000] None None None None None
        = None"
    by (simp add: defs numeral_2_eq_2)
  have e: "QP_activeset float64 (gauss_inv float64) 3 [[49]] [49000000] None None None None None
        = Some ([''solution find''], ReturnPair [- 1000000] [])"
    by (simp add: defs numeral_3_eq_3)
  show ?thesis using a b c d e by simp
qed

section \<open>The state between passes\<close>

lemma QP_step_keeps_ws:
  assumes "QP_step N np_inv G c Nx Ne we s = Continue s'" and "ws s = vstack we (ws_active s)"
  shows "ws s' = vstack we (ws_active s')"
  using assms unfolding QP_step_def Let_def
  by (auto split: sum.splits prod.splits option.splits if_splits)

lemma QP_iterate_keeps_ws:
  assumes "QP_iterate N np_inv G c Nx Ne we k s = Some t" and "ws s = vstack we (ws_active s)"
  shows "ws t = vstack we (ws_active t)"
  using assms
proof (induction k arbitrary: s)
  case 0
  then show ?case by simp
next
  case (Suc k)
  then obtain s1 where s1: "QP_step N np_inv G c Nx Ne we s = Continue s1"
    and it: "QP_iterate N np_inv G c Nx Ne we k s1 = Some t"
    by (auto split: step_result.splits)
  show ?case
    by (rule Suc.IH [OF it QP_step_keeps_ws [OF s1 Suc.prems(2)]])
qed

lemma QP_init_ws:
  "ws (QP_init N ae be ai bi x) = vstack (QP_we ae be) (ws_active (QP_init N ae be ai bi x))"
  by (simp add: QP_init_def split: prod.splits)

lemma QP_init_xk: "xk (QP_init N ae be ai bi x) = x"
  by (simp add: QP_init_def split: prod.splits)

lemma QP_loop_returns_at:
  assumes "QP_iterate N np_inv G c Nx Ne we k s0 = Some s"
    and "QP_loop N np_inv G c Nx Ne we (Suc k) s0 = Some (ReturnPair x l)"
  shows "QP_step N np_inv G c Nx Ne we s = Return x l"
  using assms
proof (induction k arbitrary: s0)
  case 0
  then show ?case by (auto split: step_result.splits)
next
  case (Suc k)
  then obtain s1 where s1: "QP_step N np_inv G c Nx Ne we s0 = Continue s1"
    and it: "QP_iterate N np_inv G c Nx Ne we k s1 = Some s"
    by (auto split: step_result.splits)
  have "QP_loop N np_inv G c Nx Ne we (Suc k) s1 = Some (ReturnPair x l)"
    using Suc.prems(2) s1 by simp
  then show ?case by (rule Suc.IH [OF it])
qed

lemma QP_activeset_pair_loop:
  assumes "QP_activeset N np_inv n G c ae be ai bi x0 = Some (out, ReturnPair x l)"
  shows "QP_loop N np_inv G c (length G) (QP_Ne ae) (QP_we ae be) n
           (QP_init N ae be ai bi (default_x0 G x0)) = Some (ReturnPair x l)"
  using assms unfolding QP_activeset_def Let_def
  by (auto split: option.splits outcome.splits)

section \<open>The invariants of the loop\<close>

subsection \<open>The partition of the inequality rows\<close>

lemma mset_np_delete:
  "n < length xs \<Longrightarrow> mset (np_delete xs n) + {#xs ! n#} = mset xs"
proof -
  assume n: "n < length xs"
  have "xs = take n xs @ xs ! n # drop (Suc n) xs"
    using n by (simp add: id_take_nth_drop)
  then have "mset xs = mset (take n xs @ xs ! n # drop (Suc n) xs)" by simp
  then show ?thesis by (simp add: np_delete_def)
qed

lemma QP_step_partition:
  assumes "QP_step N np_inv G c Nx Ne we s = Continue s'"
  shows "mset (ws_active s' @ ws_inactive s') = mset (ws_active s @ ws_inactive s)"
  using assms unfolding QP_step_def Let_def
  by (auto simp: vstack_def mset_np_delete [symmetric] split: sum.splits prod.splits option.splits if_splits)

lemma QP_iterate_partition:
  assumes "QP_iterate N np_inv G c Nx Ne we k s = Some t"
  shows "mset (ws_active t @ ws_inactive t) = mset (ws_active s @ ws_inactive s)"
  using assms
proof (induction k arbitrary: s)
  case 0
  then show ?case by simp
next
  case (Suc k)
  then obtain s1 where s1: "QP_step N np_inv G c Nx Ne we s = Continue s1"
    and it: "QP_iterate N np_inv G c Nx Ne we k s1 = Some t"
    by (auto split: step_result.splits)
  show ?case
    using Suc.IH [OF it] QP_step_partition [OF s1] by simp
qed

lemma hstack_col_zip: "hstack_col A b = map (\<lambda>(r, v). r @ [v]) (zip A b)"
  by (simp add: hstack_col_def)

lemma mset_map_filter_split:
  "mset (map f (filter P z)) + mset (map f (filter (\<lambda>y. \<not> P y) z)) = mset (map f z)"
  by (induction z) auto

lemma QP_init_partition:
  assumes "wf_constraints Nx ai bi"
  shows "mset (ws_active (QP_init N ae be ai bi x) @ ws_inactive (QP_init N ae be ai bi x))
      = mset (ineq_rows ai bi)"
proof (cases ai)
  case None
  then show ?thesis by (simp add: QP_init_def ineq_rows_def)
next
  case (Some A)
  then obtain b where b: "bi = Some b" and len: "length b = length A"
    using assms by (auto simp: wf_constraints_def is_mat_def split: option.splits)
  show ?thesis
    using mset_map_filter_split [of "\<lambda>(r, v). r @ [v]"
        "\<lambda>(r, v). np_sub N (np_dot N r x) v = 0" "zip A b"]
    by (simp add: QP_init_def ineq_rows_def Some b active_set_filter [OF len] hstack_col_zip
        case_prod_unfold)
qed

subsection \<open>The row that enters the active set\<close>

lemma alpha_loop_cases:
  assumes "alpha_loop exact x p i rows (a0, n0) = (alpha, nc)"
  shows "(alpha = a0 \<and> nc = n0) \<or>
     (\<exists>j<length rows. nc = Some (i + j) \<and> dot (butlast (rows ! j)) p < 0
        \<and> alpha = (last (rows ! j) - dot (butlast (rows ! j)) x) / dot (butlast (rows ! j)) p
        \<and> alpha < 1)"
  using assms
proof (induction rows arbitrary: i a0 n0)
  case Nil
  then show ?case by simp
next
  case (Cons row rows)
  let ?v = "(last row - dot (butlast row) x) / dot (butlast row) p"
  have unfold: "alpha_loop exact x p i (row # rows) (a0, n0)
      = (if dot (butlast row) p < 0 \<and> ?v < 1
         then alpha_loop exact x p (Suc i) rows (?v, Some i)
         else alpha_loop exact x p (Suc i) rows (a0, n0))"
    unfolding alpha_loop.simps Let_def
    by (cases "dot (butlast row) p < 0"; cases "?v < 1") (simp_all only: if_True if_False simp_thms exact_simps)
  show ?case
  proof (cases "dot (butlast row) p < 0 \<and> ?v < 1")
    case True
    then have "alpha_loop exact x p (Suc i) rows (?v, Some i) = (alpha, nc)"
      using Cons.prems unfolding unfold by (simp only: if_True simp_thms)
    from Cons.IH [OF this] show ?thesis
    proof
      assume "alpha = ?v \<and> nc = Some i"
      then show ?thesis using True by (intro disjI2 exI [of _ 0]) simp
    next
      assume "\<exists>j<length rows. nc = Some (Suc i + j) \<and> dot (butlast (rows ! j)) p < 0
        \<and> alpha = (last (rows ! j) - dot (butlast (rows ! j)) x) / dot (butlast (rows ! j)) p
        \<and> alpha < 1"
      then obtain j where "j < length rows" "nc = Some (Suc i + j)" "dot (butlast (rows ! j)) p < 0"
        "alpha = (last (rows ! j) - dot (butlast (rows ! j)) x) / dot (butlast (rows ! j)) p"
        "alpha < 1" by blast
      then show ?thesis by (intro disjI2 exI [of _ "Suc j"]) simp
    qed
  next
    case False
    then have "alpha_loop exact x p (Suc i) rows (a0, n0) = (alpha, nc)"
      using Cons.prems unfolding unfold by (simp only: if_False simp_thms)
    from Cons.IH [OF this] show ?thesis
    proof
      assume "alpha = a0 \<and> nc = n0"
      then show ?thesis by simp
    next
      assume "\<exists>j<length rows. nc = Some (Suc i + j) \<and> dot (butlast (rows ! j)) p < 0
        \<and> alpha = (last (rows ! j) - dot (butlast (rows ! j)) x) / dot (butlast (rows ! j)) p
        \<and> alpha < 1"
      then obtain j where "j < length rows" "nc = Some (Suc i + j)" "dot (butlast (rows ! j)) p < 0"
        "alpha = (last (rows ! j) - dot (butlast (rows ! j)) x) / dot (butlast (rows ! j)) p"
        "alpha < 1" by blast
      then show ?thesis by (intro disjI2 exI [of _ "Suc j"]) simp
    qed
  qed
qed

lemma alpha_loop_blocking:
  assumes "alpha_loop exact x p 0 rows (1, None) = (alpha, Some n)"
  shows "n < length rows \<and> dot (butlast (rows ! n)) p \<noteq> 0
     \<and> alpha = (last (rows ! n) - dot (butlast (rows ! n)) x) / dot (butlast (rows ! n)) p"
  using alpha_loop_cases [OF assms] by auto

lemma length_vec_scale [simp]: "length (vec_scale exact p t) = length p"
  by (simp add: vec_scale_def)

lemma dot_step:
  "length x = length p \<Longrightarrow> dot a (vec_add exact x (vec_scale exact p t)) = dot a x + dot a p * t"
  by (simp add: dot_add_right dot_scale_right)

lemma blocking_row_met:
  assumes "length x = length p" and "dot a p \<noteq> 0"
  shows "dot a (vec_add exact x (vec_scale exact p ((b - dot a x) / dot a p))) = b"
  using assms by (simp add: dot_step)


subsection \<open>The rows of the working set\<close>

lemma exact_solve_null_step:
  assumes G: "is_mat Nx Nx G" and c: "length c = Nx" and x: "length (xk s) = Nx"
    and W: "\<forall>r\<in>set (ws s). length r = Nx + 1"
    and ex: "exact_solve np_inv G c s"
    and sub: "QP_subproblem exact np_inv G c (ws s) (xk s) = Inr (pk, lk)"
  shows "length pk = Nx \<and> (\<forall>row\<in>set (ws s). dot (butlast row) pk = 0)"
proof -
  let ?M = "length (ws s)"
  let ?A = "map butlast (ws s)"
  let ?K = "kkt_lhs exact Nx G ?A"
  obtain Ki where Ki: "np_inv ?K = Some Ki"
    and pk: "pk = take Nx (map (snap exact) (mat_vec exact Ki (kkt_rhs exact G c ?M (xk s))))"
    using sub unfolding QP_subproblem_def Let_def x by (auto split: option.splits)
  let ?sol = "mat_vec exact Ki (kkt_rhs exact G c ?M (xk s))"
  have Kim: "is_mat (Nx + ?M) (Nx + ?M) Ki"
    and rinv: "mat_mul (Nx + ?M) ?K Ki = identity (Nx + ?M)"
    and nosnap: "take Nx (map (snap exact) ?sol) = take Nx ?sol"
    using ex Ki unfolding exact_solve_def Let_def x by simp_all
  have Am: "is_mat ?M Nx ?A"
    using W by (simp add: is_mat_def list_all_iff)
  have zero: "mat_vec exact ?A (take Nx ?sol) = replicate ?M 0"
    using kkt_solution_blocks [OF G c Am Kim rinv refl] by simp
  have pk': "pk = take Nx ?sol"
    using pk nosnap by simp
  have len: "length pk = Nx"
    using Kim by (simp add: pk' is_mat_def)
  have "dot (butlast row) pk = 0" if "row \<in> set (ws s)" for row
  proof -
    have "dot (butlast row) pk \<in> set (mat_vec exact ?A pk)"
      using that by (auto simp: mat_vec_def)
    then show ?thesis
      using zero by (simp add: pk')
  qed
  then show ?thesis using len by blast
qed

lemma set_np_delete: "set (np_delete xs n) \<subseteq> set xs"
  by (auto simp: np_delete_def dest: in_set_takeD in_set_dropD)

lemma rows_satisfied_iff:
  "rows_satisfied W x \<longleftrightarrow> (\<forall>row\<in>set W. dot (butlast row) x = last row)"
  by (simp add: rows_satisfied_def list_all_iff)

lemma QP_step_rows_satisfied:
  assumes G: "is_mat Nx Nx G" and c: "length c = Nx" and x: "length (xk s) = Nx"
    and W: "\<forall>r\<in>set (ws s). length r = Nx + 1"
    and sat: "rows_satisfied (ws s) (xk s)"
    and wsinv: "ws s = vstack we (ws_active s)"
    and ex: "exact_solve np_inv G c s"
    and step: "QP_step exact np_inv G c Nx Ne we s = Continue s'"
  shows "rows_satisfied (ws s') (xk s') \<and> length (xk s') = Nx"
proof -
  obtain pk lk where sub: "QP_subproblem exact np_inv G c (ws s) (xk s) = Inr (pk, lk)"
    using step unfolding QP_step_def by (auto split: sum.splits)
  have len: "length pk = Nx" and null: "\<forall>row\<in>set (ws s). dot (butlast row) pk = 0"
    using exact_solve_null_step [OF G c x W ex sub] by simp_all
  have moved: "dot (butlast row) (vec_add exact (xk s) (vec_scale exact pk t)) = last row"
    if "row \<in> set (ws s)" for row t
    using that sat null x len by (simp add: dot_step rows_satisfied_iff)
  have lenx: "length (vec_add exact (xk s) (vec_scale exact pk t)) = Nx" for t
    using x len by simp
  show ?thesis
  proof (cases "\<forall>v\<in>set pk. v = 0")
    case True
    then obtain n where s': "s' = s\<lparr>ws_active := np_delete (ws_active s) n,
          ws_inactive := vstack (ws_inactive s) [ws_active s ! n],
          ws := vstack we (np_delete (ws_active s) n)\<rparr>"
      using step unfolding QP_step_def sub
      by (auto simp: count_nonzero_zero Let_def split: if_splits sum.splits)
    have "set (vstack we (np_delete (ws_active s) n)) \<subseteq> set (ws s)"
      using set_np_delete [of "ws_active s" n] by (auto simp: wsinv vstack_def)
    then show ?thesis
      using sat x by (auto simp: s' rows_satisfied_iff)
  next
    case False
    obtain alpha nc where al: "alpha_loop exact (xk s) pk 0 (ws_inactive s) (1, None) = (alpha, nc)"
      by (cases "alpha_loop exact (xk s) pk 0 (ws_inactive s) (1, None)") auto
    show ?thesis
    proof (cases "alpha = 1")
      case True
      then have s': "s' = s\<lparr>xk := vec_add exact (xk s) (vec_scale exact pk alpha)\<rparr>"
        using step \<open>\<not> (\<forall>v\<in>set pk. v = 0)\<close> unfolding QP_step_def sub
        by (simp add: count_nonzero_zero al)
      show ?thesis
        using moved lenx by (simp add: s' rows_satisfied_iff)
    next
      case neq: False
      then obtain n where nc: "nc = Some n" and n: "n < length (ws_inactive s)"
        and s': "s' = s\<lparr>xk := vec_add exact (xk s) (vec_scale exact pk alpha),
            ws_active := vstack (ws_active s) [ws_inactive s ! n],
            ws_inactive := np_delete (ws_inactive s) n,
            ws := vstack we (vstack (ws_active s) [ws_inactive s ! n])\<rparr>"
        using step \<open>\<not> (\<forall>v\<in>set pk. v = 0)\<close> unfolding QP_step_def sub
        by (auto simp: count_nonzero_zero al Let_def split: option.splits if_splits)
      let ?r = "ws_inactive s ! n"
      have blk: "dot (butlast ?r) pk \<noteq> 0"
        "alpha = (last ?r - dot (butlast ?r) (xk s)) / dot (butlast ?r) pk"
        using alpha_loop_blocking [OF al [unfolded nc]] by simp_all
      have new: "dot (butlast ?r) (vec_add exact (xk s) (vec_scale exact pk alpha)) = last ?r"
        unfolding blk(2) by (rule blocking_row_met) (simp_all add: x len blk(1))
      have "set (ws s') = set (ws s) \<union> {?r}"
        by (auto simp: s' wsinv vstack_def)
      then show ?thesis
        using moved new lenx by (auto simp: s' rows_satisfied_iff)
    qed
  qed
qed


lemma hstack_col_widths:
  assumes "is_mat (length b) Nx A"
  shows "\<forall>r\<in>set (hstack_col A b). length r = Nx + 1"
  using assms by (auto simp: hstack_col_zip is_mat_def list_all_iff dest: set_zip_leftD)

lemma QP_we_widths:
  assumes "wf_constraints Nx ae be"
  shows "\<forall>r\<in>set (QP_we ae be). length r = Nx + 1"
proof (cases ae)
  case None
  then show ?thesis by (simp add: QP_we_def)
next
  case (Some A)
  then obtain b where "be = Some b" "is_mat (length b) Nx A"
    using assms by (auto simp: wf_constraints_def split: option.splits)
  then show ?thesis
    using hstack_col_widths [of b Nx A] by (simp add: QP_we_def Some)
qed

lemma ineq_rows_widths:
  assumes "wf_constraints Nx ai bi"
  shows "\<forall>r\<in>set (ineq_rows ai bi). length r = Nx + 1"
proof (cases ai)
  case None
  then show ?thesis by (simp add: ineq_rows_def)
next
  case (Some A)
  then obtain b where "bi = Some b" "is_mat (length b) Nx A"
    using assms by (auto simp: wf_constraints_def split: option.splits)
  then show ?thesis
    using hstack_col_widths [of b Nx A] by (simp add: ineq_rows_def Some)
qed

lemma QP_we_satisfied:
  assumes "wf_constraints Nx ae be" and "check_equalities exact ae be x = None"
  shows "rows_satisfied (QP_we ae be) x"
proof (cases ae)
  case None
  then show ?thesis by (simp add: QP_we_def rows_satisfied_def)
next
  case (Some A)
  then obtain b where b: "be = Some b" and len: "length b = length A"
    using assms(1) by (auto simp: wf_constraints_def is_mat_def split: option.splits)
  have "\<forall>i<length A. dot (A ! i) x - b ! i = 0"
    using assms(2) by (simp add: check_equalities_def Some b list_all_vec_sub [OF len] split: if_splits)
  then show ?thesis
    using len by (auto simp: QP_we_def Some b rows_satisfied_iff hstack_col_zip set_zip)
qed

lemma active_rows_satisfied:
  assumes "wf_constraints Nx ai bi"
  shows "rows_satisfied (ws_active (QP_init exact ae be ai bi x)) x"
proof (cases ai)
  case None
  then show ?thesis by (simp add: QP_init_def rows_satisfied_def)
next
  case (Some A)
  then obtain b where b: "bi = Some b" and len: "length b = length A"
    using assms by (auto simp: wf_constraints_def is_mat_def split: option.splits)
  show ?thesis
    by (auto simp: QP_init_def Some b active_set_filter [OF len] rows_satisfied_iff)
qed

lemma QP_init_satisfied:
  assumes "wf_constraints Nx ae be" and "wf_constraints Nx ai bi"
    and "check_equalities exact ae be x = None"
  shows "rows_satisfied (ws (QP_init exact ae be ai bi x)) x"
  using QP_we_satisfied [OF assms(1,3)] active_rows_satisfied [OF assms(2), of ae be x]
  by (auto simp: QP_init_ws vstack_def rows_satisfied_iff)

lemma QP_iterate_rows_satisfied:
  assumes G: "is_mat Nx Nx G" and c: "length c = Nx"
    and we: "\<forall>r\<in>set we. length r = Nx + 1"
    and R: "\<forall>r\<in>set R. length r = Nx + 1"
    and run: "QP_iterate exact np_inv G c Nx Ne we k s = Some t"
    and ex: "exact_run np_inv G c Nx Ne we k s"
    and x: "length (xk s) = Nx"
    and part: "mset (ws_active s @ ws_inactive s) = mset R"
    and wsinv: "ws s = vstack we (ws_active s)"
    and sat: "rows_satisfied (ws s) (xk s)"
  shows "rows_satisfied (ws t) (xk t)"
  using run ex x part wsinv sat
proof (induction k arbitrary: s)
  case 0
  then show ?case by simp
next
  case (Suc k)
  then obtain s1 where s1: "QP_step exact np_inv G c Nx Ne we s = Continue s1"
    and it: "QP_iterate exact np_inv G c Nx Ne we k s1 = Some t"
    by (auto split: step_result.splits)
  have ex0: "exact_solve np_inv G c s" and ex1: "exact_run np_inv G c Nx Ne we k s1"
    using Suc.prems(2) s1 by simp_all
  have "set (ws_active s) \<subseteq> set R"
    using Suc.prems(4) by (metis mset_eq_setD set_append sup_ge1)
  then have W: "\<forall>r\<in>set (ws s). length r = Nx + 1"
    using we R by (auto simp: Suc.prems(5) vstack_def)
  have step: "rows_satisfied (ws s1) (xk s1) \<and> length (xk s1) = Nx"
    by (rule QP_step_rows_satisfied [OF G c Suc.prems(3) W Suc.prems(6) Suc.prems(5) ex0 s1])
  show ?case
  proof (rule Suc.IH [OF it ex1])
    show "length (xk s1) = Nx" using step by simp
    show "mset (ws_active s1 @ ws_inactive s1) = mset R"
      using QP_step_partition [OF s1] Suc.prems(4) by simp
    show "ws s1 = vstack we (ws_active s1)"
      by (rule QP_step_keeps_ws [OF s1 Suc.prems(5)])
    show "rows_satisfied (ws s1) (xk s1)" using step by simp
  qed
qed

text \<open>
  C6, in exact arithmetic.  Take arguments of the documented shapes and a starting point that
  passes both feasibility tests, run the loop in exact arithmetic, and let it reach the head
  of pass \<open>k + 1\<close> in the state \<open>s\<close>, where the next subproblem is solved.  Then the active
  and the inactive rows of \<open>s\<close> together are the rows \<open>[a | b]\<close> of the inequalities, each as
  often as it was given, and the working set is the equalities followed by the active rows.
  If moreover \<open>np.linalg.inv\<close> returned the inverse of the KKT matrix in each of the first \<open>k\<close>
  passes, as it does in exact arithmetic, and no entry of a step was below \<open>tol_zero\<close> and
  replaced by 0, the iterate of \<open>s\<close> satisfies every row of the working set with equality.
\<close>

theorem partition_and_working_set_equalities:
  assumes wf: "wf_problem Nx G c ae be ai bi x0"
    and feas: "check_equalities exact ae be x0 = None" "check_inequalities exact ai bi x0 = None"
    and run: "QP_iterate exact np_inv G c Nx (QP_Ne ae) (QP_we ae be) k (QP_init exact ae be ai bi x0) = Some s"
  shows "mset (ws_active s @ ws_inactive s) = mset (ineq_rows ai bi)
    \<and> ws s = vstack (QP_we ae be) (ws_active s)
    \<and> (exact_run np_inv G c Nx (QP_Ne ae) (QP_we ae be) k (QP_init exact ae be ai bi x0)
         \<longrightarrow> rows_satisfied (ws s) (xk s))"
proof -
  have G: "is_mat Nx Nx G" and c: "length c = Nx" and x: "length x0 = Nx"
    and e: "wf_constraints Nx ae be" and i: "wf_constraints Nx ai bi"
    using wf by (simp_all add: wf_problem_def)
  have part0: "mset (ws_active (QP_init exact ae be ai bi x0) @ ws_inactive (QP_init exact ae be ai bi x0))
      = mset (ineq_rows ai bi)"
    by (rule QP_init_partition [OF i])
  have part: "mset (ws_active s @ ws_inactive s) = mset (ineq_rows ai bi)"
    using QP_iterate_partition [OF run] part0 by simp
  have wsinv: "ws s = vstack (QP_we ae be) (ws_active s)"
    by (rule QP_iterate_keeps_ws [OF run QP_init_ws])
  have "rows_satisfied (ws s) (xk s)"
    if ex: "exact_run np_inv G c Nx (QP_Ne ae) (QP_we ae be) k (QP_init exact ae be ai bi x0)"
    by (rule QP_iterate_rows_satisfied [OF G c QP_we_widths [OF e] ineq_rows_widths [OF i] run ex _
          part0 QP_init_ws])
      (simp_all add: QP_init_xk x QP_init_satisfied [OF e i feas(1)])
  then show ?thesis using part wsinv by blast
qed


theorem partition_and_working_set_equalities_witness:
  "mset ([[1, - 2, - 2]] @ [[- 1, - 2, - 6], [1, 0, 0], [- 1, 2, - 2], [0, 1, 0]])
     = mset (ineq_rows (Some [[1, -2], [-1, -2], [-1, 2], [1, 0], [0, 1]])
               (Some [-2, -6, -2, 0, 0]))
   \<and> rows_satisfied [[1, - 2, - 2]] [1, 3 / 2]"
proof -
  let ?ai = "Some [[1, -2], [-1, -2], [-1, 2], [1, 0], [0, 1 :: rat]]"
  let ?bi = "Some [-2, -6, -2, 0, 0 :: rat]"
  let ?s = "\<lparr>xk = [1, 3 / 2], ws_active = [[1, - 2, - 2]],
      ws_inactive = [[- 1, - 2, - 6], [1, 0, 0], [- 1, 2, - 2], [0, 1, 0]],
      ws = [[1, - 2, - 2 :: rat]]\<rparr>"
  have wf: "wf_problem 2 [[2, 0], [0, 2]] [-2, -5] None None ?ai ?bi [2, 0]"
    by (simp add: wf_problem_def wf_constraints_def is_mat_def)
  have f1: "check_equalities exact None None [2, 0] = None"
    by (simp add: check_equalities_def)
  have f2: "check_inequalities exact ?ai ?bi [2, 0] = None"
    by code_simp
  have run: "QP_iterate exact exact_inv [[2, 0], [0, 2]] [-2, -5] 2 (QP_Ne None) (QP_we None None) 4
      (QP_init exact None None ?ai ?bi [2, 0]) = Some ?s"
    by code_simp
  have ex: "exact_run exact_inv [[2, 0], [0, 2]] [-2, -5] 2 (QP_Ne None) (QP_we None None) 4
      (QP_init exact None None ?ai ?bi [2, 0])"
    by code_simp
  show ?thesis
    using partition_and_working_set_equalities [where np_inv = exact_inv, OF wf f1 f2 run] ex
    by simp
qed

text \<open>
  C6 states the equalities for every run in exact arithmetic, and the snap of \<open>tol_zero\<close> is
  part of the code in exact arithmetic too.  Take \<open>G = 2 I\<close>,
  \<open>c = (-2, -2\<cdot>10\<^sup>-\<^sup>1\<^sup>1)\<close>, the equality \<open>x\<^sub>1 - 10\<^sup>1\<^sup>1 x\<^sub>2 = 0\<close> and the origin as starting point.
  The inverse is exact and the KKT solution is \<open>p = (1, 10\<^sup>-\<^sup>1\<^sup>1)\<close>, \<open>\<lambda> = 0\<close>.  The second entry of
  \<open>p\<close> is below \<open>tol_zero\<close> and becomes 0, the full step leads to \<open>x = (1, 0)\<close>, and the second
  solve starts at a point that does not satisfy the equality.
\<close>

theorem snapped_step_leaves_equality:
  "wf_problem 2 [[2, 0], [0, 2]] [- 2, - (2 / 10 ^ 11)] (Some [[1, - (10 ^ 11)]]) (Some [0])
      None None [0, 0]
   \<and> check_equalities exact (Some [[1, - (10 ^ 11)]]) (Some [0]) [0, 0] = None
   \<and> check_inequalities exact None None [0, 0] = None
   \<and> exact_inv (kkt_lhs exact 2 [[2, 0], [0, 2]] [[1, - (10 ^ 11)]]) =
       Some [[5000000000000000000000 / 10000000000000000000001,
              50000000000 / 10000000000000000000001, 1 / 10000000000000000000001],
             [50000000000 / 10000000000000000000001, 1 / 20000000000000000000002,
              - (100000000000 / 10000000000000000000001)],
             [- (1 / 10000000000000000000001), 100000000000 / 10000000000000000000001,
              2 / 10000000000000000000001]]
   \<and> mat_mul 3 (kkt_lhs exact 2 [[2, 0], [0, 2]] [[1, - (10 ^ 11)]])
         [[5000000000000000000000 / 10000000000000000000001,
              50000000000 / 10000000000000000000001, 1 / 10000000000000000000001],
             [50000000000 / 10000000000000000000001, 1 / 20000000000000000000002,
              - (100000000000 / 10000000000000000000001)],
             [- (1 / 10000000000000000000001), 100000000000 / 10000000000000000000001,
              2 / 10000000000000000000001]] = identity 3
   \<and> mat_vec exact [[5000000000000000000000 / 10000000000000000000001,
              50000000000 / 10000000000000000000001, 1 / 10000000000000000000001],
             [50000000000 / 10000000000000000000001, 1 / 20000000000000000000002,
              - (100000000000 / 10000000000000000000001)],
             [- (1 / 10000000000000000000001), 100000000000 / 10000000000000000000001,
              2 / 10000000000000000000001]]
         (kkt_rhs exact [[2, 0], [0, 2]] [- 2, - (2 / 10 ^ 11)] 1 [0, 0]) = [1, 1 / 10 ^ 11, 0]
   \<and> QP_iterate exact exact_inv [[2, 0], [0, 2]] [- 2, - (2 / 10 ^ 11)] 2
         (QP_Ne (Some [[1, - (10 ^ 11)]])) (QP_we (Some [[1, - (10 ^ 11)]]) (Some [0])) 1
         (QP_init exact (Some [[1, - (10 ^ 11)]]) (Some [0]) None None [0, 0])
       = Some \<lparr>xk = [1, 0], ws_active = [], ws_inactive = [], ws = [[1, - (10 ^ 11), 0]]\<rparr>
   \<and> \<not> rows_satisfied [[1, - (10 ^ 11), 0]] [1, 0]"
  by code_simp


end
